theory Spec2Isabelle
  imports
    Main
    "HOL-Library.Sublist"
    "HOL-Library.Multiset"
    "HOL-Library.Char_ord"
    "HOL-Library.List_Lexorder"
begin

section \<open>Python string primitives used by the tree-fetch subsystem\<close>

text \<open>
  A Python \<^verbatim>\<open>str\<close> is modelled as a \<open>string\<close>, a list of 8-bit characters ordered by
  their codes: the strings over the first 256 code points. Slicing, splitting, prefix
  and suffix tests and the lexicographic order are Python's on these.
\<close>

text \<open>\<^verbatim>\<open>s.split(sep)\<close> for a one-character separator: never the empty list, and the
  empty string gives one empty segment.\<close>

fun split_on :: "char \<Rightarrow> string \<Rightarrow> string list" where
  "split_on sep [] = [[]]"
| "split_on sep (c # cs) =
     (if c = sep then [] # split_on sep cs
      else (case split_on sep cs of
              [] \<Rightarrow> [[c]]
            | w # ws \<Rightarrow> (c # w) # ws))"

text \<open>\<^verbatim>\<open>s.strip("/")\<close>: leading and trailing slashes removed.\<close>

definition strip_slash :: "string \<Rightarrow> string" where
  "strip_slash s =
     rev (dropWhile (\<lambda>c. c = CHR ''/'') (rev (dropWhile (\<lambda>c. c = CHR ''/'') s)))"

text \<open>\<^verbatim>\<open>s.startswith(p)\<close> and \<^verbatim>\<open>s.endswith(p)\<close>.\<close>

definition startswith :: "string \<Rightarrow> string \<Rightarrow> bool" where
  "startswith s p = prefix p s"

definition endswith :: "string \<Rightarrow> string \<Rightarrow> bool" where
  "endswith s p = suffix p s"

text \<open>Decimal rendering of a natural number, as an f-string prints an \<^verbatim>\<open>int\<close>.\<close>

definition digit_char :: "nat \<Rightarrow> char" where
  "digit_char d = char_of (48 + d)"

function str_nat :: "nat \<Rightarrow> string" where
  "str_nat n = (if n < 10 then [digit_char n] else str_nat (n div 10) @ [digit_char (n mod 10)])"
  by pat_completeness auto
termination
  by (relation "measure id") auto

declare str_nat.simps [simp del]

text \<open>An f-string prints an \<^verbatim>\<open>Optional[str]\<close> as the string itself or as \<^verbatim>\<open>None\<close>.\<close>

definition str_opt :: "string option \<Rightarrow> string" where
  "str_opt p = (case p of None \<Rightarrow> ''None'' | Some s \<Rightarrow> s)"

text \<open>Python truthiness of an \<^verbatim>\<open>Optional[str]\<close>: \<^verbatim>\<open>None\<close> and the empty string are false.\<close>

definition truthy :: "string option \<Rightarrow> bool" where
  "truthy p = (case p of None \<Rightarrow> False | Some s \<Rightarrow> s \<noteq> [])"

text \<open>\<^verbatim>\<open>p or ""\<close>.\<close>

definition or_empty :: "string option \<Rightarrow> string" where
  "or_empty p = (case p of None \<Rightarrow> [] | Some s \<Rightarrow> s)"

section \<open>Data model\<close>

text \<open>
  The walker builds nested dictionaries of two shapes: a file entry
  \<^verbatim>\<open>{"type": "file", "name", "path"}\<close> and a directory node
  \<^verbatim>\<open>{"type": "directory", "name", "children"}\<close>.
\<close>

datatype node =
    FileEntry string string
  | DirectoryNode string "node list"

fun node_name :: "node \<Rightarrow> string" where
  "node_name (FileEntry n p) = n"
| "node_name (DirectoryNode n cs) = n"

text \<open>Exceptions: FastAPI's \<^verbatim>\<open>HTTPException(status_code, detail)\<close>, and any other
  exception, kept by its message \<^verbatim>\<open>str(e)\<close>.\<close>

datatype exn =
    HTTPException nat string
  | OtherException string

text \<open>An entry of a directory listing (PyGithub's \<^verbatim>\<open>ContentFile\<close>): its \<^verbatim>\<open>type\<close>
  (\<^verbatim>\<open>"dir"\<close>, \<^verbatim>\<open>"file"\<close>, \<^verbatim>\<open>"symlink"\<close>, ...), \<^verbatim>\<open>name\<close> and \<^verbatim>\<open>path\<close>.\<close>

record item =
  itype :: string
  iname :: string
  ipath :: string

text \<open>\<^verbatim>\<open>repo.get_contents(path)\<close> answers with one entry (a lone file) or a list.\<close>

datatype contents =
    Single item
  | Listing "item list"

record repo =
  repo_name :: string
  get_contents :: "string \<Rightarrow> exn + contents"

text \<open>The calls made to the outside, in the order they are issued.\<close>

datatype event =
    CacheGet string
  | CacheSetex string nat string
  | ProjectLookup string
  | PrivateRepoAttempt string
  | PublicRepoAttempt string
  | PathProbe string
  | WalkerCall string
  | ListContents string

section \<open>Tree walker: \<^verbatim>\<open>_fetch_repo_structure_async\<close>\<close>

definition exclude_extensions :: "string list" where
  "exclude_extensions =
     [''png'', ''jpg'', ''jpeg'', ''gif'', ''bmp'', ''tiff'', ''webp'', ''ico'', ''svg'',
      ''mp4'', ''avi'', ''mov'', ''wmv'', ''flv'', ''ipynb'', ''zlib'']"

text \<open>\<^verbatim>\<open>self.max_depth\<close>, set to 4 by the constructor.\<close>

definition max_depth :: nat where
  "max_depth = 4"

text \<open>The depth the walker computes from \<^verbatim>\<open>path\<close> and \<^verbatim>\<open>base_path\<close> (source lines 442-449).\<close>

definition compute_depth :: "string \<Rightarrow> string option \<Rightarrow> nat" where
  "compute_depth path base_path =
     (if truthy base_path then
        (let relative_path = strip_slash (drop (length (or_empty base_path)) path)
         in if relative_path \<noteq> [] then length (split_on CHR ''/'' relative_path) else 0)
      else
        (if path \<noteq> [] then length (split_on CHR ''/'' path) else 0))"

text \<open>\<^verbatim>\<open>path.split("/")[-1] or repo.name\<close>.\<close>

definition dir_name :: "repo \<Rightarrow> string \<Rightarrow> string" where
  "dir_name r path =
     (let seg = last (split_on CHR ''/'' path) in if seg \<noteq> [] then seg else repo_name r)"

definition truncated_marker :: node where
  "truncated_marker = FileEntry ''...'' ''truncated''"

text \<open>The list comprehension's condition (source lines 477-478).\<close>

definition keep_item :: "item \<Rightarrow> bool" where
  "keep_item it =
     (itype it = ''dir'' \<or> \<not> list_ex (\<lambda>ext. endswith (iname it) ext) exclude_extensions)"

text \<open>The loop's \<^verbatim>\<open>continue\<close> guard negated (source line 484).\<close>

definition in_scope :: "string option \<Rightarrow> item \<Rightarrow> bool" where
  "in_scope base_path it =
     (\<not> (truthy base_path \<and> \<not> startswith (ipath it) (or_empty base_path)))"

definition as_list :: "contents \<Rightarrow> item list" where
  "as_list c = (case c of Single it \<Rightarrow> [it] | Listing its \<Rightarrow> its)"

definition file_entry :: "item \<Rightarrow> node" where
  "file_entry it = FileEntry (iname it) (ipath it)"

text \<open>
  \<^verbatim>\<open>asyncio.gather(*tasks)\<close>: the results in the order the tasks were issued; an exception
  raised by a task is raised by the \<^verbatim>\<open>await\<close>. \<open>None\<close> is a task that never returns.
  The tasks run concurrently; their calls are logged in task order.
\<close>

fun gather :: "((exn + 'a) \<times> event list) option list \<Rightarrow> ((exn + 'a list) \<times> event list) option" where
  "gather [] = Some (Inr [], [])"
| "gather (None # ts) = None"
| "gather (Some (r, ev) # ts) =
     (case gather ts of
        None \<Rightarrow> None
      | Some (rest, ev') \<Rightarrow>
          Some ((case r of
                   Inl e \<Rightarrow> Inl e
                 | Inr v \<Rightarrow> (case rest of Inl e \<Rightarrow> Inl e | Inr vs \<Rightarrow> Inr (v # vs))),
                ev @ ev'))"

text \<open>
  The walker. The first argument bounds the nesting of recursive calls: \<open>None\<close> means the
  bound was too small. The result is the returned node (or the exception that leaves
  the call) with the log of the calls made. Files are appended while the listing is
  scanned, the gathered subdirectory nodes after them; an exception inside the
  \<^verbatim>\<open>try\<close> block leaves the children collected so far.
\<close>

fun fetch_repo_structure ::
  "nat \<Rightarrow> repo \<Rightarrow> string \<Rightarrow> int \<Rightarrow> string option \<Rightarrow> ((exn + node) \<times> event list) option" where
  "fetch_repo_structure 0 r path current_depth base_path = None"
| "fetch_repo_structure (Suc fuel) r path current_depth base_path =
     (let current_depth = compute_depth path base_path in
      if current_depth \<ge> max_depth then
        Some (Inr (DirectoryNode (dir_name r path) [truncated_marker]), [WalkerCall path])
      else
        (case get_contents r path of
           Inl e \<Rightarrow>
             Some (Inr (DirectoryNode (dir_name r path) []), [WalkerCall path, ListContents path])
         | Inr listed \<Rightarrow>
             (let contents = filter keep_item (as_list listed);
                  scoped = filter (in_scope base_path) contents;
                  files = map file_entry (filter (\<lambda>it. itype it \<noteq> ''dir'') scoped);
                  tasks = map (\<lambda>it. fetch_repo_structure fuel r (ipath it) (int current_depth) base_path)
                            (filter (\<lambda>it. itype it = ''dir'') scoped)
              in if tasks = [] then
                   Some (Inr (DirectoryNode (dir_name r path) files),
                         [WalkerCall path, ListContents path])
                 else
                   (case gather tasks of
                      None \<Rightarrow> None
                    | Some (Inl e, evs) \<Rightarrow>
                        Some (Inr (DirectoryNode (dir_name r path) files),
                              [WalkerCall path, ListContents path] @ evs)
                    | Some (Inr children, evs) \<Rightarrow>
                        Some (Inr (DirectoryNode (dir_name r path) (files @ children)),
                              [WalkerCall path, ListContents path] @ evs)))))"

section \<open>Tree formatter: \<^verbatim>\<open>_format_tree_structure\<close>\<close>

text \<open>\<^verbatim>\<open>"  " * depth\<close>.\<close>

definition indent :: "nat \<Rightarrow> string" where
  "indent depth = concat (replicate depth ''  '')"

text \<open>
  \<^verbatim>\<open>_format_node\<close>: the node's own line unless it is the root, then the children sorted by
  name (\<^verbatim>\<open>sorted\<close> with a key is stable, as \<open>sort_key\<close> is). Only a directory node has the
  key \<^verbatim>\<open>"children"\<close>.
\<close>

fun format_node :: "node \<Rightarrow> nat \<Rightarrow> string list" where
  "format_node (FileEntry n p) depth = (if depth > 0 then [indent depth @ n] else [])"
| "format_node (DirectoryNode n cs) depth =
     (if depth > 0 then [indent depth @ n] else []) @
     concat (map (\<lambda>child. format_node child (depth + 1)) (sort_key node_name cs))"

text \<open>\<^verbatim>\<open>sep.join(lines)\<close>.\<close>

fun join :: "string \<Rightarrow> string list \<Rightarrow> string" where
  "join sep [] = []"
| "join sep [x] = x"
| "join sep (x # y # ys) = x @ sep @ join sep (y # ys)"

definition format_tree_structure :: "node \<Rightarrow> string" where
  "format_tree_structure structure = join [CHR 0x0A] (format_node structure 0)"

section \<open>Orchestrator: \<^verbatim>\<open>get_repo\<close> and \<^verbatim>\<open>get_project_structure_async\<close>\<close>

text \<open>The project row as the service reads it: \<^verbatim>\<open>project["project_name"]\<close>, possibly
  \<^verbatim>\<open>None\<close>.\<close>

record project =
  project_name :: "string option"

text \<open>
  The collaborators the service calls. Each call returns or raises:
  the Redis client (\<^verbatim>\<open>get\<close>, \<^verbatim>\<open>setex\<close>), the project lookup, and the two ways to a
  repository handle (app installation, then a public token).
\<close>

record env =
  redis_get_error :: "string \<Rightarrow> exn option"
  redis_setex_error :: "string \<Rightarrow> exn option"
  get_project_from_db_by_id :: "string \<Rightarrow> exn + project option"
  private_repo :: "string \<Rightarrow> exn + repo"
  public_repo :: "string \<Rightarrow> exn + repo"

text \<open>
  Redis holds bytes. They are either the UTF-8 encoding of a \<^verbatim>\<open>str\<close>, named here by
  that \<^verbatim>\<open>str\<close>, or bytes that are not well-formed UTF-8, named by the message of the
  \<^verbatim>\<open>UnicodeDecodeError\<close> that decoding them raises. The empty bytes are the encoding of the
  empty \<^verbatim>\<open>str\<close>.
\<close>

datatype stored =
    Encoded string
  | Malformed string

text \<open>\<^verbatim>\<open>value.decode("utf-8")\<close>.\<close>

definition decode_utf8 :: "stored \<Rightarrow> exn + string" where
  "decode_utf8 b = (case b of Encoded s \<Rightarrow> Inr s | Malformed msg \<Rightarrow> Inl (OtherException msg))"

text \<open>The Redis contents: key to stored bytes.\<close>

type_synonym cache = "string \<rightharpoonup> stored"

text \<open>\<^verbatim>\<open>get_repo\<close>: authenticated access first, public access second, 404 when both fail.\<close>

definition get_repo :: "env \<Rightarrow> string \<Rightarrow> (exn + repo) \<times> event list" where
  "get_repo e rname =
     (case private_repo e rname of
        Inr r \<Rightarrow> (Inr r, [PrivateRepoAttempt rname])
      | Inl private_error \<Rightarrow>
          (case public_repo e rname of
             Inr r \<Rightarrow> (Inr r, [PrivateRepoAttempt rname, PublicRepoAttempt rname])
           | Inl public_error \<Rightarrow>
               (Inl (HTTPException 404
                       (''Repository '' @ rname @ '' not found or inaccessible on GitHub'')),
                [PrivateRepoAttempt rname, PublicRepoAttempt rname])))"

definition cache_key_of :: "string \<Rightarrow> string option \<Rightarrow> string" where
  "cache_key_of project_id path =
     ''project_structure:'' @ project_id @ '':exact_path_'' @ str_opt path @
     '':depth_'' @ str_nat max_depth"

text \<open>The existence probe of the scope path (source lines 387-394).\<close>

definition probe_path :: "repo \<Rightarrow> string option \<Rightarrow> (exn + unit) \<times> event list" where
  "probe_path r path =
     (if truthy path then
        (case get_contents r (or_empty path) of
           Inl e \<Rightarrow>
             (Inl (HTTPException 404 (''Path '' @ or_empty path @ '' not found in repository'')),
              [PathProbe (or_empty path)])
         | Inr c \<Rightarrow> (Inr (), [PathProbe (or_empty path)]))
      else (Inr (), []))"

text \<open>The body of the \<^verbatim>\<open>try\<close> block (source lines 384-404).\<close>

definition fetch_and_cache ::
  "nat \<Rightarrow> env \<Rightarrow> cache \<Rightarrow> string \<Rightarrow> string \<Rightarrow> string option \<Rightarrow>
     ((exn + string) \<times> cache \<times> event list) option" where
  "fetch_and_cache fuel e c cache_key rname path =
     (case get_repo e rname of
        (Inl x, ev1) \<Rightarrow> Some (Inl x, c, ev1)
      | (Inr r, ev1) \<Rightarrow>
          (case probe_path r path of
             (Inl x, ev2) \<Rightarrow> Some (Inl x, c, ev1 @ ev2)
           | (Inr u, ev2) \<Rightarrow>
               (case fetch_repo_structure fuel r (or_empty path) 0 path of
                  None \<Rightarrow> None
                | Some (Inl x, ev3) \<Rightarrow> Some (Inl x, c, ev1 @ ev2 @ ev3)
                | Some (Inr structure, ev3) \<Rightarrow>
                    (let formatted_structure = format_tree_structure structure;
                         evs = ev1 @ ev2 @ ev3 @ [CacheSetex cache_key 3600 formatted_structure]
                     in case redis_setex_error e cache_key of
                          Some x \<Rightarrow> Some (Inl x, c, evs)
                        | None \<Rightarrow>
                            Some (Inr formatted_structure,
                                  c(cache_key \<mapsto> Encoded formatted_structure), evs)))))"

text \<open>The two \<^verbatim>\<open>except\<close> clauses (source lines 405-414).\<close>

definition on_exception :: "exn \<Rightarrow> exn" where
  "on_exception x =
     (case x of
        HTTPException code detail \<Rightarrow> HTTPException code detail
      | OtherException msg \<Rightarrow>
          HTTPException 500 (''Failed to fetch project structure: '' @ msg))"

text \<open>
  \<^verbatim>\<open>get_project_structure_async\<close>: the result or the exception raised, the Redis contents
  afterwards, and the calls made. \<^verbatim>\<open>if cached_structure:\<close> is false for a missing key and
  for empty bytes; the decoding of a hit stands outside the \<^verbatim>\<open>try\<close> block, so what it raises
  reaches the caller as it is.
\<close>

definition get_project_structure_async ::
  "nat \<Rightarrow> env \<Rightarrow> cache \<Rightarrow> string \<Rightarrow> string option \<Rightarrow>
     ((exn + string) \<times> cache \<times> event list) option" where
  "get_project_structure_async fuel e c project_id path =
     (let cache_key = cache_key_of project_id path in
      case redis_get_error e cache_key of
        Some x \<Rightarrow> Some (Inl x, c, [CacheGet cache_key])
      | None \<Rightarrow>
          (let cached_structure = c cache_key in
           if cached_structure \<noteq> None \<and> cached_structure \<noteq> Some (Encoded []) then
             (case decode_utf8 (the cached_structure) of
                Inl x \<Rightarrow> Some (Inl x, c, [CacheGet cache_key])
              | Inr s \<Rightarrow> Some (Inr s, c, [CacheGet cache_key]))
           else
             (case get_project_from_db_by_id e project_id of
                Inl x \<Rightarrow> Some (Inl x, c, [CacheGet cache_key, ProjectLookup project_id])
              | Inr None \<Rightarrow>
                  Some (Inl (HTTPException 404 ''Project not found''), c,
                        [CacheGet cache_key, ProjectLookup project_id])
              | Inr (Some proj) \<Rightarrow>
                  (if \<not> truthy (project_name proj) then
                     Some (Inl (HTTPException 400 ''Project has no associated GitHub repository''),
                           c, [CacheGet cache_key, ProjectLookup project_id])
                   else
                     (case fetch_and_cache fuel e c cache_key (or_empty (project_name proj)) path of
                        None \<Rightarrow> None
                      | Some (Inl x, c', evs) \<Rightarrow>
                          Some (Inl (on_exception x), c',
                                [CacheGet cache_key, ProjectLookup project_id] @ evs)
                      | Some (Inr s, c', evs) \<Rightarrow>
                          Some (Inr s, c',
                                [CacheGet cache_key, ProjectLookup project_id] @ evs))))))"

text \<open>Two calls in a row, the second on the Redis contents the first one left.\<close>

definition call_twice ::
  "nat \<Rightarrow> env \<Rightarrow> cache \<Rightarrow> string \<Rightarrow> string option \<Rightarrow>
     (((exn + string) \<times> event list) \<times> ((exn + string) \<times> event list)) option" where
  "call_twice fuel e c project_id path =
     (case get_project_structure_async fuel e c project_id path of
        None \<Rightarrow> None
      | Some (res1, c1, ev1) \<Rightarrow>
          (case get_project_structure_async fuel e c1 project_id path of
             None \<Rightarrow> None
           | Some (res2, c2, ev2) \<Rightarrow> Some ((res1, ev1), (res2, ev2))))"

section \<open>Notions of the specification\<close>

text \<open>
  The effective depth in the specification's words: the number of \<open>/\<close>-separated segments
  (0 for the empty string) of the path with the base path prefix stripped and the
  surrounding slashes trimmed when a base path is set, and of the path itself
  otherwise. Stripping a prefix is defined only for a path that starts with it.
\<close>

fun remove_prefix :: "string \<Rightarrow> string \<Rightarrow> string option" where
  "remove_prefix [] s = Some s"
| "remove_prefix (c # cs) [] = None"
| "remove_prefix (c # cs) (d # ds) = (if c = d then remove_prefix cs ds else None)"

fun without_leading_slashes :: "string \<Rightarrow> string" where
  "without_leading_slashes [] = []"
| "without_leading_slashes (c # cs) =
     (if c = CHR ''/'' then without_leading_slashes cs else c # cs)"

definition spec_trimmed :: "string \<Rightarrow> string" where
  "spec_trimmed s = rev (without_leading_slashes (rev (without_leading_slashes s)))"

definition spec_segments :: "string \<Rightarrow> nat" where
  "spec_segments s = (if s = [] then 0 else Suc (count_list s CHR ''/''))"

definition spec_effective_depth :: "string \<Rightarrow> string option \<Rightarrow> nat option" where
  "spec_effective_depth path base_path =
     (if truthy base_path then
        map_option (\<lambda>rest. spec_segments (spec_trimmed rest))
          (remove_prefix (or_empty base_path) path)
      else Some (spec_segments path))"

text \<open>The path lies under the base path, when one is set.\<close>

definition in_base :: "string option \<Rightarrow> string \<Rightarrow> bool" where
  "in_base base_path p = (if truthy base_path then startswith p (or_empty base_path) else True)"

text \<open>The entries of a listing that reach the loop body, split as the loop splits them.\<close>

definition scoped_items :: "string option \<Rightarrow> contents \<Rightarrow> item list" where
  "scoped_items base_path listed = filter (in_scope base_path) (filter keep_item (as_list listed))"

definition file_items :: "string option \<Rightarrow> contents \<Rightarrow> item list" where
  "file_items base_path listed = filter (\<lambda>it. itype it \<noteq> ''dir'') (scoped_items base_path listed)"

definition dir_items :: "string option \<Rightarrow> contents \<Rightarrow> item list" where
  "dir_items base_path listed = filter (\<lambda>it. itype it = ''dir'') (scoped_items base_path listed)"

text \<open>The node a walk returned.\<close>

definition walked :: "((exn + node) \<times> event list) option \<Rightarrow> node" where
  "walked w = projr (fst (the w))"

text \<open>The names of all file entries of a tree, and the number of its nodes.\<close>

fun file_names :: "node \<Rightarrow> string list" where
  "file_names (FileEntry n p) = [n]"
| "file_names (DirectoryNode n cs) = concat (map file_names cs)"

fun count_nodes :: "node \<Rightarrow> nat" where
  "count_nodes (FileEntry n p) = 1"
| "count_nodes (DirectoryNode n cs) = Suc (sum_list (map count_nodes cs))"

text \<open>Sibling names are pairwise distinct at every directory of the tree, as they are
  in a directory of a repository.\<close>

fun distinct_sibling_names :: "node \<Rightarrow> bool" where
  "distinct_sibling_names (FileEntry n p) = True"
| "distinct_sibling_names (DirectoryNode n cs) =
     (distinct (map node_name cs) \<and> list_all distinct_sibling_names cs)"

text \<open>One tree is the other with the children list of every directory permuted.\<close>

inductive reordered :: "node \<Rightarrow> node \<Rightarrow> bool" where
  reordered_file: "reordered (FileEntry n p) (FileEntry n p)"
| reordered_dir:
    "list_all2 reordered cs ds \<Longrightarrow> mset ds = mset es \<Longrightarrow>
     reordered (DirectoryNode n cs) (DirectoryNode n es)"

text \<open>The children of a node; a file entry has none.\<close>

fun node_children :: "node \<Rightarrow> node list" where
  "node_children (FileEntry n p) = []"
| "node_children (DirectoryNode n cs) = cs"

text \<open>Every subdirectory a listing shows lies deeper than the directory listed, as in a
  repository, where an entry's path is the directory's path with the entry's name
  appended.\<close>

definition listing_descends :: "repo \<Rightarrow> string option \<Rightarrow> bool" where
  "listing_descends r base_path =
     (\<forall>path listed. get_contents r path = Inr listed \<longrightarrow>
        (\<forall>it \<in> set (dir_items base_path listed).
           compute_depth path base_path < compute_depth (ipath it) base_path))"

section \<open>Sample repositories and environments\<close>

definition demo_root :: "item list" where
  "demo_root =
     [\<lparr>itype = ''file'', iname = ''README.md'', ipath = ''README.md''\<rparr>,
      \<lparr>itype = ''file'', iname = ''logo.png'', ipath = ''logo.png''\<rparr>,
      \<lparr>itype = ''dir'', iname = ''src'', ipath = ''src''\<rparr>,
      \<lparr>itype = ''dir'', iname = ''images.svg'', ipath = ''images.svg''\<rparr>,
      \<lparr>itype = ''dir'', iname = ''broken'', ipath = ''broken''\<rparr>,
      \<lparr>itype = ''file'', iname = ''png'', ipath = ''png''\<rparr>,
      \<lparr>itype = ''file'', iname = ''mysvg'', ipath = ''mysvg''\<rparr>]"

text \<open>The listing of \<open>broken\<close> fails, as does the listing of any path not named here.\<close>

definition demo_repo :: repo where
  "demo_repo = \<lparr> repo_name = ''demo'', get_contents = (\<lambda>p.
     if p = [] then Inr (Listing demo_root)
     else if p = ''src'' then
       Inr (Listing [\<lparr>itype = ''file'', iname = ''main.py'', ipath = ''src/main.py''\<rparr>,
                     \<lparr>itype = ''file'', iname = ''diagram.svg'', ipath = ''src/diagram.svg''\<rparr>])
     else if p = ''images.svg'' then
       Inr (Listing [\<lparr>itype = ''file'', iname = ''a.txt'', ipath = ''images.svg/a.txt''\<rparr>])
     else Inl (OtherException ''Not Found'')) \<rparr>"

definition demo_tree :: node where
  "demo_tree =
     DirectoryNode ''demo''
       [FileEntry ''README.md'' ''README.md'',
        DirectoryNode ''src'' [FileEntry ''main.py'' ''src/main.py''],
        DirectoryNode ''images.svg'' [FileEntry ''a.txt'' ''images.svg/a.txt''],
        DirectoryNode ''broken'' []]"

text \<open>The demo tree with the children of the root in another order.\<close>

definition demo_tree_shuffled :: node where
  "demo_tree_shuffled =
     DirectoryNode ''demo''
       [DirectoryNode ''broken'' [],
        DirectoryNode ''images.svg'' [FileEntry ''a.txt'' ''images.svg/a.txt''],
        FileEntry ''README.md'' ''README.md'',
        DirectoryNode ''src'' [FileEntry ''main.py'' ''src/main.py'']]"

text \<open>Two siblings with one name, a file and a directory, in both orders.\<close>

definition clash_tree :: node where
  "clash_tree = DirectoryNode ''demo'' [FileEntry ''a'' ''a'', DirectoryNode ''a'' [FileEntry ''b'' ''a/b'']]"

definition clash_tree_swapped :: node where
  "clash_tree_swapped = DirectoryNode ''demo'' [DirectoryNode ''a'' [FileEntry ''b'' ''a/b''], FileEntry ''a'' ''a'']"

definition empty_repo :: repo where
  "empty_repo = \<lparr> repo_name = ''blank'', get_contents = (\<lambda>p.
     if p = [] then Inr (Listing []) else Inl (OtherException ''Not Found'')) \<rparr>"

text \<open>
  Project \<open>p1\<close> is linked to the demo repository, \<open>p2\<close> has no repository name, \<open>p3\<close>
  names a repository nobody can reach, \<open>p4\<close> is linked to the empty repository, \<open>p5\<close>
  has the empty string as its repository name. No other project exists.
\<close>

definition demo_env :: env where
  "demo_env = \<lparr>
     redis_get_error = (\<lambda>k. None),
     redis_setex_error = (\<lambda>k. None),
     get_project_from_db_by_id = (\<lambda>pid.
       if pid = ''p1'' then Inr (Some \<lparr>project_name = Some ''acme/demo''\<rparr>)
       else if pid = ''p2'' then Inr (Some \<lparr>project_name = None\<rparr>)
       else if pid = ''p3'' then Inr (Some \<lparr>project_name = Some ''acme/gone''\<rparr>)
       else if pid = ''p4'' then Inr (Some \<lparr>project_name = Some ''acme/blank''\<rparr>)
       else if pid = ''p5'' then Inr (Some \<lparr>project_name = Some []\<rparr>)
       else Inr None),
     private_repo = (\<lambda>n.
       if n = ''acme/demo'' then Inr demo_repo else Inl (OtherException ''Bad credentials'')),
     public_repo = (\<lambda>n.
       if n = ''acme/blank'' then Inr empty_repo else Inl (OtherException ''Not Found'')) \<rparr>"

text \<open>The same environment with a Redis that refuses to store.\<close>

definition readonly_env :: env where
  "readonly_env = demo_env \<lparr> redis_setex_error := (\<lambda>k. Some (OtherException ''Connection refused'')) \<rparr>"

text \<open>Redis contents holding a text, holding empty bytes, and holding the single byte
  \<open>0xFF\<close>, under the key of the unknown project \<open>zz\<close>.\<close>

definition warm_cache :: cache where
  "warm_cache = Map.empty(cache_key_of ''zz'' None \<mapsto> Encoded ''  a'')"

definition blank_cache :: cache where
  "blank_cache = Map.empty(cache_key_of ''zz'' None \<mapsto> Encoded [])"

definition invalid_start_byte :: string where
  "invalid_start_byte =
     [CHR 0x27] @ ''utf-8'' @ [CHR 0x27] @ '' codec can'' @ [CHR 0x27] @
     ''t decode byte 0xff in position 0: invalid start byte''"

definition corrupt_cache :: cache where
  "corrupt_cache = Map.empty(cache_key_of ''zz'' None \<mapsto> Malformed invalid_start_byte)"

text \<open>A repository asked for the scope \<open>/src\<close>: the listing shows entries by their paths
  from the root, which do not start with the slash.\<close>

definition slash_repo :: repo where
  "slash_repo = \<lparr> repo_name = ''demo'', get_contents = (\<lambda>p.
     if p = ''/src'' then
       Inr (Listing [\<lparr>itype = ''dir'', iname = ''pkg'', ipath = ''src/pkg''\<rparr>])
     else if p = ''src/pkg'' then
       Inr (Listing [\<lparr>itype = ''file'', iname = ''mod.py'', ipath = ''src/pkg/mod.py''\<rparr>])
     else Inl (OtherException ''Not Found'')) \<rparr>"

section \<open>Properties of the string primitives\<close>

lemma length_split_on: "length (split_on c s) = Suc (count_list s c)"
  by (induction s) (auto split: list.splits)

lemma remove_prefix_Some: "remove_prefix b s = Some rest \<Longrightarrow> rest = drop (length b) s"
  by (induction b s rule: remove_prefix.induct) (auto split: if_splits)

section \<open>Properties of the walker\<close>

text \<open>
  Claim C1. Whenever the depth computed from the path (relative to the base path when
  one is set, from the repository root otherwise) is at least 4, the walker returns
  the directory node whose only child is the file entry named \<open>...\<close> with path
  \<open>truncated\<close>; one level of calls is enough, and the log holds the call itself and no
  listing.
\<close>

theorem truncated_at_max_depth:
  "4 \<le> compute_depth path base_path \<Longrightarrow>
   fetch_repo_structure (Suc fuel) r path current_depth base_path =
     Some (Inr (DirectoryNode (dir_name r path) [FileEntry ''...'' ''truncated'']),
           [WalkerCall path])"
  by (simp add: max_depth_def truncated_marker_def)

theorem truncated_at_max_depth_witness:
  "4 \<le> compute_depth ''src/a/b/c/d'' (Some ''src'') \<and>
   fetch_repo_structure 1 demo_repo ''src/a/b/c/d'' 0 (Some ''src'') =
     Some (Inr (DirectoryNode ''d'' [FileEntry ''...'' ''truncated'']),
           [WalkerCall ''src/a/b/c/d''])"
proof -
  have d: "4 \<le> compute_depth ''src/a/b/c/d'' (Some ''src'')"
    by (simp add: compute_depth_def truthy_def or_empty_def strip_slash_def)
  have n: "dir_name demo_repo ''src/a/b/c/d'' = ''d''"
    by (simp add: dir_name_def)
  from truncated_at_max_depth [OF d, of 0 demo_repo 0] d n show ?thesis
    by simp
qed

lemma fetch_current_depth_irrelevant:
  "fetch_repo_structure fuel r path d1 base_path = fetch_repo_structure fuel r path d2 base_path"
  by (cases fuel) simp_all

lemma fetch_never_raises:
  "fetch_repo_structure fuel r path cd base_path = Some (res, evs) \<Longrightarrow> \<exists>t. res = Inr t"
  by (cases fuel) (auto simp: Let_def split: sum.splits option.splits if_splits prod.splits)

lemma gather_Some_all:
  "gather ts = Some x \<Longrightarrow> None \<notin> set ts"
  by (induction ts arbitrary: x rule: gather.induct) (auto split: option.splits)

lemma gather_all_returned:
  "\<forall>t \<in> set ts. \<exists>v ev. t = Some (Inr v, ev) \<Longrightarrow>
   gather ts = Some (Inr (map (\<lambda>t. projr (fst (the t))) ts), concat (map (\<lambda>t. snd (the t)) ts))"
  by (induction ts rule: gather.induct) auto

lemma fetch_Some_Inr:
  "fetch_repo_structure fuel r path cd base_path \<noteq> None \<Longrightarrow>
   \<exists>t ev. fetch_repo_structure fuel r path cd base_path = Some (Inr t, ev)"
  using fetch_never_raises by (cases "fetch_repo_structure fuel r path cd base_path") auto

lemma fetch_listing:
  assumes depth: "compute_depth path base_path < max_depth"
    and listed: "get_contents r path = Inr listed"
    and subs: "\<forall>it \<in> set (dir_items base_path listed).
                 fetch_repo_structure fuel r (ipath it) d base_path \<noteq> None"
  shows "fetch_repo_structure (Suc fuel) r path cd base_path =
     Some (Inr (DirectoryNode (dir_name r path)
                  (map file_entry (file_items base_path listed) @
                   map (\<lambda>it. walked (fetch_repo_structure fuel r (ipath it) d base_path))
                     (dir_items base_path listed))),
           [WalkerCall path, ListContents path] @
           concat (map (\<lambda>it. snd (the (fetch_repo_structure fuel r (ipath it) d base_path)))
                     (dir_items base_path listed)))"
proof -
  let ?d = "int (compute_depth path base_path)"
  let ?tasks = "map (\<lambda>it. fetch_repo_structure fuel r (ipath it) ?d base_path)
                  (dir_items base_path listed)"
  have eq: "\<And>it. fetch_repo_structure fuel r (ipath it) ?d base_path =
                  fetch_repo_structure fuel r (ipath it) d base_path"
    by (rule fetch_current_depth_irrelevant)
  have "\<forall>t \<in> set ?tasks. \<exists>v ev. t = Some (Inr v, ev)"
    using subs fetch_Some_Inr by (auto simp: eq)
  from gather_all_returned [OF this]
  have g: "gather ?tasks = Some (Inr (map (\<lambda>t. projr (fst (the t))) ?tasks),
                                 concat (map (\<lambda>t. snd (the t)) ?tasks))" .
  show ?thesis
    using depth listed g
    by (simp add: Let_def dir_items_def file_items_def scoped_items_def walked_def eq comp_def
        del: gather.simps)
qed

lemma fetch_listing_needs:
  assumes depth: "compute_depth path base_path < max_depth"
    and listed: "get_contents r path = Inr listed"
    and ret: "fetch_repo_structure (Suc fuel) r path cd base_path \<noteq> None"
  shows "\<forall>it \<in> set (dir_items base_path listed).
           fetch_repo_structure fuel r (ipath it) d base_path \<noteq> None"
proof -
  let ?d = "int (compute_depth path base_path)"
  let ?tasks = "map (\<lambda>it. fetch_repo_structure fuel r (ipath it) ?d base_path)
                  (dir_items base_path listed)"
  have eq: "\<And>it. fetch_repo_structure fuel r (ipath it) ?d base_path =
                  fetch_repo_structure fuel r (ipath it) d base_path"
    by (rule fetch_current_depth_irrelevant)
  have "gather ?tasks \<noteq> None"
    using depth listed ret
    by (auto simp: Let_def dir_items_def file_items_def scoped_items_def
        split: option.splits if_splits simp del: gather.simps(2,3))
  then have "None \<notin> set ?tasks"
    using gather_Some_all by blast
  show ?thesis
  proof
    fix it
    assume "it \<in> set (dir_items base_path listed)"
    then have "fetch_repo_structure fuel r (ipath it) ?d base_path \<in> set ?tasks"
      by simp
    with \<open>None \<notin> set ?tasks\<close>
    have "fetch_repo_structure fuel r (ipath it) ?d base_path \<noteq> None"
      by metis
    then show "fetch_repo_structure fuel r (ipath it) d base_path \<noteq> None"
      by (simp add: eq)
  qed
qed


lemma keep_item_file:
  "itype it \<noteq> ''dir'' \<Longrightarrow> keep_item it \<Longrightarrow> ext \<in> set exclude_extensions \<Longrightarrow> \<not> suffix ext (iname it)"
  by (auto simp: keep_item_def list_ex_iff endswith_def)

lemma truncated_not_excluded: "ext \<in> set exclude_extensions \<Longrightarrow> \<not> suffix ext ''...''"
  by (auto simp: exclude_extensions_def suffix_def Cons_eq_append_conv append_eq_Cons_conv)

lemma fetch_file_names:
  "fetch_repo_structure fuel r path cd base_path = Some (Inr t, evs) \<Longrightarrow>
   n \<in> set (file_names t) \<Longrightarrow> ext \<in> set exclude_extensions \<Longrightarrow> \<not> suffix ext n"
proof (induction fuel arbitrary: path cd t evs n)
  case 0
  then show ?case by simp
next
  case (Suc fuel)
  show ?case
  proof (cases "compute_depth path base_path < max_depth")
    case False
    with Suc.prems show ?thesis
      by (auto simp: truncated_marker_def dest: truncated_not_excluded)
  next
    case depth: True
    show ?thesis
    proof (cases "get_contents r path")
      case (Inl e)
      with depth Suc.prems show ?thesis by auto
    next
      case (Inr listed)
      have ret: "fetch_repo_structure (Suc fuel) r path cd base_path \<noteq> None"
        using Suc.prems(1) by simp
      note subs = fetch_listing_needs [OF depth Inr ret, of 0]
      from fetch_listing [OF depth Inr subs, of cd] Suc.prems(1)
      have t: "t = DirectoryNode (dir_name r path)
                  (map file_entry (file_items base_path listed) @
                   map (\<lambda>it. walked (fetch_repo_structure fuel r (ipath it) 0 base_path))
                     (dir_items base_path listed))"
        by simp
      from Suc.prems(2) t consider
          (from_file) it where "it \<in> set (file_items base_path listed)" "n = iname it"
        | (from_dir) it where "it \<in> set (dir_items base_path listed)"
            "n \<in> set (file_names (walked (fetch_repo_structure fuel r (ipath it) 0 base_path)))"
        by (auto simp: file_entry_def)
      then show ?thesis
      proof cases
        case from_file
        then have "itype it \<noteq> ''dir''" "keep_item it"
          by (auto simp: file_items_def scoped_items_def)
        with from_file Suc.prems(3) show ?thesis
          using keep_item_file by blast
      next
        case from_dir
        with subs obtain t' ev' where
          w: "fetch_repo_structure fuel r (ipath it) 0 base_path = Some (Inr t', ev')"
          using fetch_Some_Inr by blast
        then have "walked (fetch_repo_structure fuel r (ipath it) 0 base_path) = t'"
          by (simp add: walked_def)
        with from_dir Suc.IH [OF w _ Suc.prems(3)] show ?thesis by simp
      qed
    qed
  qed
qed


lemma fetch_returns:
  "listing_descends r base_path \<Longrightarrow> max_depth - compute_depth path base_path < fuel \<Longrightarrow>
   fetch_repo_structure fuel r path cd base_path \<noteq> None"
proof (induction fuel arbitrary: path cd)
  case 0
  then show ?case by simp
next
  case (Suc fuel)
  show ?case
  proof (cases "compute_depth path base_path < max_depth")
    case False
    then show ?thesis by simp
  next
    case depth: True
    show ?thesis
    proof (cases "get_contents r path")
      case (Inl e)
      with depth show ?thesis by simp
    next
      case (Inr listed)
      have "\<forall>it \<in> set (dir_items base_path listed).
              fetch_repo_structure fuel r (ipath it) cd base_path \<noteq> None"
      proof
        fix it
        assume "it \<in> set (dir_items base_path listed)"
        with Suc.prems(1) Inr
        have "compute_depth path base_path < compute_depth (ipath it) base_path"
          unfolding listing_descends_def by blast
        with depth Suc.prems(2)
        have "max_depth - compute_depth (ipath it) base_path < fuel"
          by arith
        with Suc.IH [OF Suc.prems(1)]
        show "fetch_repo_structure fuel r (ipath it) cd base_path \<noteq> None" .
      qed
      from fetch_listing [OF depth Inr this] show ?thesis by simp
    qed
  qed
qed

lemma remove_prefix_prefix: "prefix b s \<Longrightarrow> remove_prefix b s = Some (drop (length b) s)"
  by (induction b s rule: remove_prefix.induct) auto

lemma without_leading_slashes_dropWhile:
  "without_leading_slashes s = dropWhile (\<lambda>c. c = CHR ''/'') s"
  by (induction s) simp_all

lemma spec_trimmed_strip: "spec_trimmed s = strip_slash s"
  by (simp add: spec_trimmed_def strip_slash_def without_leading_slashes_dropWhile)

lemma spec_depth_defined:
  "in_base base_path p \<Longrightarrow> spec_effective_depth p base_path \<noteq> None"
  by (auto simp: in_base_def spec_effective_depth_def startswith_def remove_prefix_prefix
      split: if_splits)

lemma spec_depth_computed:
  "spec_effective_depth path base_path = Some d \<Longrightarrow> compute_depth path base_path = d"
  by (auto simp: spec_effective_depth_def compute_depth_def spec_segments_def length_split_on
      spec_trimmed_strip dest: remove_prefix_Some split: if_splits)

lemma dir_items_in_base: "it \<in> set (dir_items base_path listed) \<Longrightarrow> in_base base_path (ipath it)"
  by (auto simp: dir_items_def scoped_items_def in_scope_def in_base_def)

lemma walker_calls_in_base:
  "fetch_repo_structure fuel r path cd base_path = Some (res, evs) \<Longrightarrow>
   in_base base_path path \<Longrightarrow> WalkerCall p \<in> set evs \<Longrightarrow> in_base base_path p"
proof (induction fuel arbitrary: path cd res evs)
  case 0
  then show ?case by simp
next
  case (Suc fuel)
  show ?case
  proof (cases "compute_depth path base_path < max_depth")
    case False
    with Suc.prems show ?thesis by auto
  next
    case depth: True
    show ?thesis
    proof (cases "get_contents r path")
      case (Inl e)
      with depth Suc.prems show ?thesis by auto
    next
      case (Inr listed)
      have ret: "fetch_repo_structure (Suc fuel) r path cd base_path \<noteq> None"
        using Suc.prems(1) by simp
      note subs = fetch_listing_needs [OF depth Inr ret, of 0]
      from fetch_listing [OF depth Inr subs, of cd] Suc.prems(1)
      have "evs = [WalkerCall path, ListContents path] @
              concat (map (\<lambda>it. snd (the (fetch_repo_structure fuel r (ipath it) 0 base_path)))
                        (dir_items base_path listed))"
        by simp
      with Suc.prems(3) consider (here) "p = path"
        | (below) it where "it \<in> set (dir_items base_path listed)"
            "WalkerCall p \<in> set (snd (the (fetch_repo_structure fuel r (ipath it) 0 base_path)))"
        by auto
      then show ?thesis
      proof cases
        case here
        with Suc.prems(2) show ?thesis by simp
      next
        case below
        with subs obtain res' evs' where
          w: "fetch_repo_structure fuel r (ipath it) 0 base_path = Some (res', evs')"
          by fastforce
        with below have "WalkerCall p \<in> set evs'"
          by simp
        from Suc.IH [OF w dir_items_in_base [OF below(1)] this] show ?thesis .
      qed
    qed
  qed
qed

lemma fetch_logs_call:
  "fetch_repo_structure fuel r path cd base_path = Some (res, evs) \<Longrightarrow> WalkerCall path \<in> set evs"
  by (cases fuel) (auto simp: Let_def split: sum.splits option.splits if_splits prod.splits)

lemma listed_iff_below_limit:
  "fetch_repo_structure fuel r path cd base_path = Some (res, evs) \<Longrightarrow>
   (ListContents p \<in> set evs \<longrightarrow> compute_depth p base_path < max_depth) \<and>
   (WalkerCall p \<in> set evs \<and> compute_depth p base_path < max_depth \<longrightarrow>
      ListContents p \<in> set evs)"
proof (induction fuel arbitrary: path cd res evs)
  case 0
  then show ?case by simp
next
  case (Suc fuel)
  show ?case
  proof (cases "compute_depth path base_path < max_depth")
    case False
    with Suc.prems show ?thesis by auto
  next
    case depth: True
    show ?thesis
    proof (cases "get_contents r path")
      case (Inl e)
      with depth Suc.prems show ?thesis by auto
    next
      case (Inr listed)
      let ?sub = "\<lambda>it. snd (the (fetch_repo_structure fuel r (ipath it) 0 base_path))"
      have ret: "fetch_repo_structure (Suc fuel) r path cd base_path \<noteq> None"
        using Suc.prems by simp
      note subs = fetch_listing_needs [OF depth Inr ret, of 0]
      from fetch_listing [OF depth Inr subs, of cd] Suc.prems
      have evs: "evs = [WalkerCall path, ListContents path] @
              concat (map ?sub (dir_items base_path listed))"
        by simp
      have below: "(ListContents p \<in> set (?sub it) \<longrightarrow> compute_depth p base_path < max_depth) \<and>
                   (WalkerCall p \<in> set (?sub it) \<and> compute_depth p base_path < max_depth \<longrightarrow>
                      ListContents p \<in> set (?sub it))"
        if "it \<in> set (dir_items base_path listed)" for it
      proof -
        from that subs obtain res' evs' where
          w: "fetch_repo_structure fuel r (ipath it) 0 base_path = Some (res', evs')"
          by fastforce
        from Suc.IH [OF w] w show ?thesis by simp
      qed
      show ?thesis
      proof (intro conjI impI)
        assume "ListContents p \<in> set evs"
        with evs consider "p = path"
          | it where "it \<in> set (dir_items base_path listed)" "ListContents p \<in> set (?sub it)"
          by auto
        then show "compute_depth p base_path < max_depth"
          using depth below by cases blast+
      next
        assume "WalkerCall p \<in> set evs \<and> compute_depth p base_path < max_depth"
        with evs consider "p = path"
          | it where "it \<in> set (dir_items base_path listed)" "WalkerCall p \<in> set (?sub it)"
              "compute_depth p base_path < max_depth"
          by auto
        then show "ListContents p \<in> set evs"
        proof cases
          case 1
          with evs show ?thesis by simp
        next
          case 2
          with below have "ListContents p \<in> set (?sub it)"
            by blast
          with 2(1) evs show ?thesis
            by auto
        qed
      qed
    qed
  qed
qed

lemma subdirectory_called:
  assumes "compute_depth path base_path < max_depth"
    and "get_contents r path = Inr listed"
    and "fetch_repo_structure (Suc fuel) r path cd base_path = Some (res, evs)"
    and "it \<in> set (dir_items base_path listed)"
  shows "WalkerCall (ipath it) \<in> set evs"
proof -
  let ?sub = "\<lambda>it. snd (the (fetch_repo_structure fuel r (ipath it) 0 base_path))"
  have ret: "fetch_repo_structure (Suc fuel) r path cd base_path \<noteq> None"
    using assms(3) by simp
  note subs = fetch_listing_needs [OF assms(1,2) ret, of 0]
  from fetch_listing [OF assms(1,2) subs, of cd] assms(3)
  have evs: "evs = [WalkerCall path, ListContents path] @
          concat (map ?sub (dir_items base_path listed))"
    by simp
  from assms(4) subs obtain res' evs' where
    w: "fetch_repo_structure fuel r (ipath it) 0 base_path = Some (res', evs')"
    by fastforce
  then have "WalkerCall (ipath it) \<in> set (?sub it)"
    using fetch_logs_call by fastforce
  with assms(4) evs show ?thesis
    by auto
qed

text \<open>
  Claim C2. The depth is recomputed from the path at every call. The walker's result
  does not depend on the \<open>current_depth\<close> argument. Where the effective depth of the
  specification is defined (with a base path set: the segments of the path after the
  base path prefix and the surrounding slashes are stripped, 0 if nothing remains;
  without one: the segments of the path, 0 for the empty path), it is the depth the
  walker computes and acts on, whatever \<open>current_depth\<close> it was given: at 4 or more the
  call returns the truncation node with no listing, below 4 it lists the path. In a
  walk the service starts, the effective depth is defined at every call, and a path
  called is listed exactly when its own depth is below the limit; every retained
  subdirectory of a listing is called, and treated by its own depth.
\<close>

theorem depth_recomputed:
  "fetch_repo_structure fuel r path d1 base_path = fetch_repo_structure fuel r path d2 base_path \<and>
   (\<forall>d. spec_effective_depth path base_path = Some d \<longrightarrow>
        compute_depth path base_path = d \<and>
        (max_depth \<le> d \<longrightarrow>
           fetch_repo_structure (Suc fuel) r path d1 base_path =
             Some (Inr (DirectoryNode (dir_name r path) [truncated_marker]), [WalkerCall path])) \<and>
        (d < max_depth \<longrightarrow>
           (\<forall>res evs. fetch_repo_structure (Suc fuel) r path d1 base_path = Some (res, evs) \<longrightarrow>
                      ListContents path \<in> set evs))) \<and>
   (fetch_repo_structure fuel r (or_empty base_path) d1 base_path = Some (res, evs) \<and>
    WalkerCall p \<in> set evs \<longrightarrow>
      spec_effective_depth p base_path = Some (compute_depth p base_path) \<and>
      (ListContents p \<in> set evs \<longleftrightarrow> compute_depth p base_path < max_depth)) \<and>
   (compute_depth path base_path < max_depth \<and> get_contents r path = Inr listed \<and>
    fetch_repo_structure (Suc fuel) r path d1 base_path = Some (res', evs') \<and>
    it \<in> set (dir_items base_path listed) \<longrightarrow>
      WalkerCall (ipath it) \<in> set evs' \<and>
      (ListContents (ipath it) \<in> set evs' \<longleftrightarrow> compute_depth (ipath it) base_path < max_depth))"
proof (intro conjI allI impI)
  show "fetch_repo_structure fuel r path d1 base_path = fetch_repo_structure fuel r path d2 base_path"
    by (rule fetch_current_depth_irrelevant)
next
  fix d
  assume "spec_effective_depth path base_path = Some d"
  then show "compute_depth path base_path = d"
    by (rule spec_depth_computed)
next
  fix d
  assume "spec_effective_depth path base_path = Some d" and "max_depth \<le> d"
  then have "max_depth \<le> compute_depth path base_path"
    using spec_depth_computed by blast
  then show "fetch_repo_structure (Suc fuel) r path d1 base_path =
             Some (Inr (DirectoryNode (dir_name r path) [truncated_marker]), [WalkerCall path])"
    by simp
next
  fix d res evs
  assume "spec_effective_depth path base_path = Some d" and "d < max_depth"
    and w: "fetch_repo_structure (Suc fuel) r path d1 base_path = Some (res, evs)"
  then have "compute_depth path base_path < max_depth"
    using spec_depth_computed by blast
  with listed_iff_below_limit [OF w] fetch_logs_call [OF w]
  show "ListContents path \<in> set evs"
    by blast
next
  assume a: "fetch_repo_structure fuel r (or_empty base_path) d1 base_path = Some (res, evs) \<and>
    WalkerCall p \<in> set evs"
  have "in_base base_path (or_empty base_path)"
    by (simp add: in_base_def startswith_def)
  with a have "in_base base_path p"
    using walker_calls_in_base by blast
  then obtain d where d: "spec_effective_depth p base_path = Some d"
    using spec_depth_defined by blast
  with spec_depth_computed show "spec_effective_depth p base_path = Some (compute_depth p base_path)"
    by blast
  from a listed_iff_below_limit
  show "ListContents p \<in> set evs \<longleftrightarrow> compute_depth p base_path < max_depth"
    by blast
next
  assume a: "compute_depth path base_path < max_depth \<and> get_contents r path = Inr listed \<and>
    fetch_repo_structure (Suc fuel) r path d1 base_path = Some (res', evs') \<and>
    it \<in> set (dir_items base_path listed)"
  then show c: "WalkerCall (ipath it) \<in> set evs'"
    using subdirectory_called by blast
  from a c listed_iff_below_limit
  show "ListContents (ipath it) \<in> set evs' \<longleftrightarrow> compute_depth (ipath it) base_path < max_depth"
    by blast
qed

theorem depth_recomputed_witness:
  "fetch_repo_structure 3 demo_repo [] 0 None = fetch_repo_structure 3 demo_repo [] 7 None \<and>
   spec_effective_depth ''src/a/b/c/d'' (Some ''src'') = Some 4 \<and>
   compute_depth ''src/a/b/c/d'' (Some ''src'') = 4 \<and>
   fetch_repo_structure (Suc 0) demo_repo ''src/a/b/c/d'' 0 (Some ''src'') =
     Some (Inr (DirectoryNode ''d'' [FileEntry ''...'' ''truncated'']),
           [WalkerCall ''src/a/b/c/d'']) \<and>
   spec_effective_depth ''src'' None = Some 1 \<and>
   compute_depth ''src'' None = 1 \<and>
   fetch_repo_structure (Suc 0) demo_repo ''src'' 9 None =
     Some (Inr (DirectoryNode ''src'' [FileEntry ''main.py'' ''src/main.py'']),
           [WalkerCall ''src'', ListContents ''src'']) \<and>
   ListContents ''src'' \<in> set [WalkerCall ''src'', ListContents ''src''] \<and>
   fetch_repo_structure 3 demo_repo (or_empty (Some ''src'')) 0 (Some ''src'') =
     Some (Inr (DirectoryNode ''src'' [FileEntry ''main.py'' ''src/main.py'']),
           [WalkerCall ''src'', ListContents ''src'']) \<and>
   spec_effective_depth ''src'' (Some ''src'') = Some (compute_depth ''src'' (Some ''src'')) \<and>
   compute_depth ''src'' (Some ''src'') = 0 \<and>
   compute_depth [] None < max_depth \<and>
   get_contents demo_repo [] = Inr (Listing demo_root) \<and>
   \<lparr>itype = ''dir'', iname = ''src'', ipath = ''src''\<rparr> \<in> set (dir_items None (Listing demo_root)) \<and>
   map_option snd (fetch_repo_structure 3 demo_repo [] 9 None) =
     Some [WalkerCall [], ListContents [], WalkerCall ''src'', ListContents ''src'',
           WalkerCall ''images.svg'', ListContents ''images.svg'',
           WalkerCall ''broken'', ListContents ''broken''] \<and>
   WalkerCall ''src'' \<in> set [WalkerCall [], ListContents [], WalkerCall ''src'', ListContents ''src'',
           WalkerCall ''images.svg'', ListContents ''images.svg'',
           WalkerCall ''broken'', ListContents ''broken'']"
proof -
  let ?src = "\<lparr>itype = ''dir'', iname = ''src'', ipath = ''src''\<rparr>"
  let ?log = "[WalkerCall [], ListContents [], WalkerCall ''src'', ListContents ''src'',
           WalkerCall ''images.svg'', ListContents ''images.svg'',
           WalkerCall ''broken'', ListContents ''broken'']"
  from depth_recomputed [of 3 demo_repo "[]" 0 None 7]
  have a: "fetch_repo_structure 3 demo_repo [] 0 None = fetch_repo_structure 3 demo_repo [] 7 None"
    by blast
  have s1: "spec_effective_depth ''src/a/b/c/d'' (Some ''src'') = Some 4"
    by code_simp
  have l1: "max_depth \<le> 4"
    by code_simp
  have n1: "dir_name demo_repo ''src/a/b/c/d'' = ''d''" "truncated_marker = FileEntry ''...'' ''truncated''"
    by code_simp+
  from depth_recomputed [of 0 demo_repo "''src/a/b/c/d''" 0 "Some ''src''" 0] s1 l1
  have b: "compute_depth ''src/a/b/c/d'' (Some ''src'') = 4 \<and>
           fetch_repo_structure (Suc 0) demo_repo ''src/a/b/c/d'' 0 (Some ''src'') =
             Some (Inr (DirectoryNode (dir_name demo_repo ''src/a/b/c/d'') [truncated_marker]),
                   [WalkerCall ''src/a/b/c/d''])"
    by blast
  with n1 have b': "compute_depth ''src/a/b/c/d'' (Some ''src'') = 4 \<and>
           fetch_repo_structure (Suc 0) demo_repo ''src/a/b/c/d'' 0 (Some ''src'') =
             Some (Inr (DirectoryNode ''d'' [FileEntry ''...'' ''truncated'']),
                   [WalkerCall ''src/a/b/c/d''])"
    by (simp only:)
  have s2: "spec_effective_depth ''src'' None = Some 1"
    by code_simp
  have l2: "1 < max_depth"
    by code_simp
  have w2: "fetch_repo_structure (Suc 0) demo_repo ''src'' 9 None =
     Some (Inr (DirectoryNode ''src'' [FileEntry ''main.py'' ''src/main.py'']),
           [WalkerCall ''src'', ListContents ''src''])"
    by code_simp
  from depth_recomputed [of 0 demo_repo "''src''" 9 None 9] s2 l2 w2
  have c: "compute_depth ''src'' None = 1 \<and>
           ListContents ''src'' \<in> set [WalkerCall ''src'', ListContents ''src'']"
    by blast
  have w3: "fetch_repo_structure 3 demo_repo (or_empty (Some ''src'')) 0 (Some ''src'') =
     Some (Inr (DirectoryNode ''src'' [FileEntry ''main.py'' ''src/main.py'']),
           [WalkerCall ''src'', ListContents ''src''])"
    by code_simp
  have m3: "WalkerCall ''src'' \<in> set [WalkerCall ''src'', ListContents ''src'']"
    by simp
  from depth_recomputed [of 3 demo_repo _ 0 "Some ''src''" _
      "Inr (DirectoryNode ''src'' [FileEntry ''main.py'' ''src/main.py''])"
      "[WalkerCall ''src'', ListContents ''src'']" "''src''"] w3 m3
  have e: "spec_effective_depth ''src'' (Some ''src'') = Some (compute_depth ''src'' (Some ''src''))"
    by blast
  have z: "compute_depth ''src'' (Some ''src'') = 0"
    by code_simp
  have d4: "compute_depth [] None < max_depth"
    by code_simp
  have g4: "get_contents demo_repo [] = Inr (Listing demo_root)"
    by code_simp
  have i4: "?src \<in> set (dir_items None (Listing demo_root))"
    by code_simp
  have w4: "fetch_repo_structure (Suc 2) demo_repo [] 9 None = Some (Inr demo_tree, ?log)"
    by code_simp
  from depth_recomputed [where fuel = 2 and r = demo_repo and path = "[]" and ?d1.0 = 9
      and base_path = None and listed = "Listing demo_root" and res' = "Inr demo_tree"
      and evs' = ?log and it = ?src] d4 g4 i4 w4
  have f: "WalkerCall (ipath ?src) \<in> set ?log"
    by blast
  from w4 have w4': "map_option snd (fetch_repo_structure 3 demo_repo [] 9 None) = Some ?log"
    by (simp add: numeral_3_eq_3)
  from f have f': "WalkerCall ''src'' \<in> set ?log"
    by (simp only: item.simps)
  from a s1 b' s2 c w2 w3 e z d4 g4 i4 w4' f' show ?thesis
    by blast
qed

text \<open>
  Claim C3. A listing that raises does not leave the walker: below the depth limit the
  call returns the directory node for the path with the children collected so far,
  which are none. No call of the walker ever returns an exception. Where the listing of
  a directory succeeds, the node holds every retained file and one node for every
  retained subdirectory, whatever happened inside each of them, as soon as the walks
  of the subdirectories return; and they all return, within a nesting of
  \<open>max_depth + 1\<close> calls, when every listed subdirectory lies deeper than its parent.
\<close>

theorem listing_failure_contained:
  "(get_contents r path = Inl e \<and> compute_depth path base_path < max_depth \<longrightarrow>
      fetch_repo_structure (Suc fuel) r path cd base_path =
        Some (Inr (DirectoryNode (dir_name r path) []), [WalkerCall path, ListContents path])) \<and>
   fetch_repo_structure fuel r path cd base_path \<noteq> Some (Inl e, evs) \<and>
   (get_contents r path = Inr listed \<and> compute_depth path base_path < max_depth \<and>
    (\<forall>it \<in> set (dir_items base_path listed).
        fetch_repo_structure fuel r (ipath it) cd base_path \<noteq> None) \<longrightarrow>
      (\<exists>evs'. fetch_repo_structure (Suc fuel) r path cd base_path =
         Some (Inr (DirectoryNode (dir_name r path)
                      (map file_entry (file_items base_path listed) @
                       map (\<lambda>it. walked (fetch_repo_structure fuel r (ipath it) cd base_path))
                         (dir_items base_path listed))), evs'))) \<and>
   (listing_descends r base_path \<and> max_depth - compute_depth path base_path < fuel \<longrightarrow>
      (\<exists>t evs'. fetch_repo_structure fuel r path cd base_path = Some (Inr t, evs')))"
proof (intro conjI impI)
  assume "get_contents r path = Inl e \<and> compute_depth path base_path < max_depth"
  then show "fetch_repo_structure (Suc fuel) r path cd base_path =
        Some (Inr (DirectoryNode (dir_name r path) []), [WalkerCall path, ListContents path])"
    by simp
next
  show "fetch_repo_structure fuel r path cd base_path \<noteq> Some (Inl e, evs)"
    using fetch_never_raises by fastforce
next
  assume a: "get_contents r path = Inr listed \<and> compute_depth path base_path < max_depth \<and>
    (\<forall>it \<in> set (dir_items base_path listed).
        fetch_repo_structure fuel r (ipath it) cd base_path \<noteq> None)"
  then have "compute_depth path base_path < max_depth" "get_contents r path = Inr listed"
    "\<forall>it \<in> set (dir_items base_path listed).
        fetch_repo_structure fuel r (ipath it) cd base_path \<noteq> None"
    by blast+
  from fetch_listing [OF this]
  show "\<exists>evs'. fetch_repo_structure (Suc fuel) r path cd base_path =
         Some (Inr (DirectoryNode (dir_name r path)
                      (map file_entry (file_items base_path listed) @
                       map (\<lambda>it. walked (fetch_repo_structure fuel r (ipath it) cd base_path))
                         (dir_items base_path listed))), evs')"
    by blast
next
  assume "listing_descends r base_path \<and> max_depth - compute_depth path base_path < fuel"
  then have "fetch_repo_structure fuel r path cd base_path \<noteq> None"
    using fetch_returns by blast
  then show "\<exists>t evs'. fetch_repo_structure fuel r path cd base_path = Some (Inr t, evs')"
    by (rule fetch_Some_Inr)
qed


lemma demo_descends: "listing_descends demo_repo None"
  unfolding listing_descends_def
proof (intro allI impI ballI)
  fix path listed it
  assume l: "get_contents demo_repo path = Inr listed"
    and i: "it \<in> set (dir_items None listed)"
  from l consider "path = []" | "path = ''src''" | "path = ''images.svg''"
    by (auto simp: demo_repo_def split: if_splits)
  then show "compute_depth path None < compute_depth (ipath it) None"
  proof cases
    case 1
    with l i show ?thesis
      by (auto simp: demo_repo_def demo_root_def dir_items_def scoped_items_def as_list_def
          keep_item_def in_scope_def truthy_def compute_depth_def split: if_splits)
  next
    case 2
    with l i show ?thesis
      by (auto simp: demo_repo_def dir_items_def scoped_items_def as_list_def keep_item_def
          in_scope_def truthy_def compute_depth_def split: if_splits)
  next
    case 3
    with l i show ?thesis
      by (auto simp: demo_repo_def dir_items_def scoped_items_def as_list_def keep_item_def
          in_scope_def truthy_def compute_depth_def split: if_splits)
  qed
qed

theorem listing_failure_contained_witness:
  "get_contents demo_repo ''broken'' = Inl (OtherException ''Not Found'') \<and>
   compute_depth ''broken'' None < max_depth \<and>
   fetch_repo_structure 1 demo_repo ''broken'' 0 None =
     Some (Inr (DirectoryNode ''broken'' []), [WalkerCall ''broken'', ListContents ''broken'']) \<and>
   get_contents demo_repo [] = Inr (Listing demo_root) \<and>
   map ipath (dir_items None (Listing demo_root)) = [''src'', ''images.svg'', ''broken''] \<and>
   map_option fst (fetch_repo_structure 3 demo_repo [] 0 None) = Some (Inr demo_tree) \<and>
   listing_descends demo_repo None \<and>
   (\<exists>t evs. fetch_repo_structure 5 demo_repo [] 0 None = Some (Inr t, evs))"
proof -
  have b: "get_contents demo_repo ''broken'' = Inl (OtherException ''Not Found'')"
    by code_simp
  have bd: "compute_depth ''broken'' None < max_depth"
    by code_simp
  have bn: "dir_name demo_repo ''broken'' = ''broken''"
    by code_simp
  from listing_failure_contained [of demo_repo "''broken''" "OtherException ''Not Found''" None 0 0] b bd bn
  have w1: "fetch_repo_structure 1 demo_repo ''broken'' 0 None =
     Some (Inr (DirectoryNode ''broken'' []), [WalkerCall ''broken'', ListContents ''broken''])"
    by simp
  have l: "get_contents demo_repo [] = Inr (Listing demo_root)"
    by code_simp
  have d: "compute_depth [] None < max_depth"
    by code_simp
  have dirs: "map ipath (dir_items None (Listing demo_root)) = [''src'', ''images.svg'', ''broken'']"
    by code_simp
  have subs: "\<forall>it \<in> set (dir_items None (Listing demo_root)).
                fetch_repo_structure 2 demo_repo (ipath it) 0 None \<noteq> None"
    by code_simp
  have v: "DirectoryNode (dir_name demo_repo [])
             (map file_entry (file_items None (Listing demo_root)) @
              map (\<lambda>it. walked (fetch_repo_structure 2 demo_repo (ipath it) 0 None))
                (dir_items None (Listing demo_root))) = demo_tree"
    by code_simp
  from listing_failure_contained [of demo_repo "[]" _ None 2 0 _ "Listing demo_root"] l d subs
  obtain evs' where "fetch_repo_structure (Suc 2) demo_repo [] 0 None =
         Some (Inr (DirectoryNode (dir_name demo_repo [])
             (map file_entry (file_items None (Listing demo_root)) @
              map (\<lambda>it. walked (fetch_repo_structure 2 demo_repo (ipath it) 0 None))
                (dir_items None (Listing demo_root)))), evs')"
    by blast
  with v have w3: "map_option fst (fetch_repo_structure 3 demo_repo [] 0 None) = Some (Inr demo_tree)"
    by (simp add: numeral_3_eq_3)
  have m: "max_depth - compute_depth [] None < 5"
    by code_simp
  from listing_failure_contained [of demo_repo "[]" _ None 5 0] demo_descends m
  have w5: "\<exists>t evs. fetch_repo_structure 5 demo_repo [] 0 None = Some (Inr t, evs)"
    by blast
  from b bd w1 l dirs w3 demo_descends w5 show ?thesis
    by blast
qed

text \<open>
  Claim C5, as amended. In the tree the walker returns, no file entry has a name ending with one of
  the excluded extensions, so a non-directory entry of the listing with such a name is
  absent; an entry of type \<open>dir\<close> that passes the scope check is walked, whatever its
  name, and the node of that walk is a child of the returned node.
\<close>

theorem excluded_files_absent_dirs_traversed:
  assumes "fetch_repo_structure (Suc fuel) r path cd base_path = Some (Inr t, evs)"
    and "compute_depth path base_path < max_depth"
    and "get_contents r path = Inr listed"
    and "it \<in> set (as_list listed)"
  shows "(\<forall>n \<in> set (file_names t). \<not> list_ex (endswith n) exclude_extensions) \<and>
         (itype it \<noteq> ''dir'' \<and> list_ex (endswith (iname it)) exclude_extensions \<longrightarrow>
            iname it \<notin> set (file_names t)) \<and>
         (itype it = ''dir'' \<and> in_scope base_path it \<longrightarrow>
            (\<exists>child ev. fetch_repo_structure fuel r (ipath it) cd base_path = Some (Inr child, ev) \<and>
                         child \<in> set (node_children t)))"
proof -
  have all: "\<forall>n \<in> set (file_names t). \<not> list_ex (endswith n) exclude_extensions"
    using fetch_file_names [OF assms(1)] by (auto simp: list_ex_iff endswith_def)
  have ret: "fetch_repo_structure (Suc fuel) r path cd base_path \<noteq> None"
    using assms(1) by simp
  note subs = fetch_listing_needs [OF assms(2,3) ret, of cd]
  from fetch_listing [OF assms(2,3) subs, of cd] assms(1)
  have t: "node_children t =
             map file_entry (file_items base_path listed) @
             map (\<lambda>it. walked (fetch_repo_structure fuel r (ipath it) cd base_path))
               (dir_items base_path listed)"
    by auto
  have "\<exists>child ev. fetch_repo_structure fuel r (ipath it) cd base_path = Some (Inr child, ev) \<and>
                   child \<in> set (node_children t)"
    if "itype it = ''dir''" "in_scope base_path it"
  proof -
    from that assms(4) have m: "it \<in> set (dir_items base_path listed)"
      by (simp add: dir_items_def scoped_items_def keep_item_def)
    with subs obtain child ev where
      c: "fetch_repo_structure fuel r (ipath it) cd base_path = Some (Inr child, ev)"
      using fetch_Some_Inr by blast
    then have "walked (fetch_repo_structure fuel r (ipath it) cd base_path) = child"
      by (simp add: walked_def)
    with m t have "child \<in> set (node_children t)"
      by auto
    with c show ?thesis by blast
  qed
  with all show ?thesis by blast
qed

text \<open>
  Claim C10. The extension test is a plain suffix test: a non-directory entry whose
  name is any string followed by an excluded extension, with or without a dot before
  it and also when nothing precedes it, is rejected by the filter and absent from the
  returned tree.
\<close>

theorem suffix_without_dot_dropped:
  assumes "fetch_repo_structure (Suc fuel) r path cd base_path = Some (Inr t, evs)"
    and "compute_depth path base_path < max_depth"
    and "get_contents r path = Inr listed"
    and "it \<in> set (as_list listed)"
    and "itype it \<noteq> ''dir''"
    and "ext \<in> set exclude_extensions"
    and "iname it = stem @ ext"
  shows "\<not> keep_item it \<and> iname it \<notin> set (file_names t) \<and>
         FileEntry (iname it) p \<notin> set (node_children t)"
proof -
  have s: "suffix ext (iname it)"
    using assms(7) by (simp add: suffix_def)
  then have k: "\<not> keep_item it"
    using assms(5,6) by (auto simp: keep_item_def list_ex_iff endswith_def)
  have n: "iname it \<notin> set (file_names t)"
    using fetch_file_names [OF assms(1) _ assms(6)] s by blast
  have "FileEntry (iname it) p \<notin> set (node_children t)"
  proof
    assume "FileEntry (iname it) p \<in> set (node_children t)"
    then have "iname it \<in> set (file_names t)"
      by (cases t) force+
    with n show False by simp
  qed
  with k n show ?thesis by blast
qed


theorem excluded_files_absent_dirs_traversed_witness:
  "fetch_repo_structure 3 demo_repo [] 0 None =
     Some (Inr demo_tree,
           [WalkerCall [], ListContents [], WalkerCall ''src'', ListContents ''src'',
            WalkerCall ''images.svg'', ListContents ''images.svg'',
            WalkerCall ''broken'', ListContents ''broken'']) \<and>
   compute_depth [] None < max_depth \<and>
   get_contents demo_repo [] = Inr (Listing demo_root) \<and>
   \<lparr>itype = ''file'', iname = ''logo.png'', ipath = ''logo.png''\<rparr> \<in> set (as_list (Listing demo_root)) \<and>
   list_ex (endswith ''logo.png'') exclude_extensions \<and>
   ''logo.png'' \<notin> set (file_names demo_tree) \<and>
   \<lparr>itype = ''dir'', iname = ''images.svg'', ipath = ''images.svg''\<rparr> \<in> set (as_list (Listing demo_root)) \<and>
   in_scope None \<lparr>itype = ''dir'', iname = ''images.svg'', ipath = ''images.svg''\<rparr> \<and>
   (\<exists>child ev. fetch_repo_structure 2 demo_repo ''images.svg'' 0 None = Some (Inr child, ev) \<and>
                child \<in> set (node_children demo_tree))"
proof -
  let ?logo = "\<lparr>itype = ''file'', iname = ''logo.png'', ipath = ''logo.png''\<rparr>"
  let ?img = "\<lparr>itype = ''dir'', iname = ''images.svg'', ipath = ''images.svg''\<rparr>"
  have w: "fetch_repo_structure (Suc 2) demo_repo [] 0 None =
     Some (Inr demo_tree,
           [WalkerCall [], ListContents [], WalkerCall ''src'', ListContents ''src'',
            WalkerCall ''images.svg'', ListContents ''images.svg'',
            WalkerCall ''broken'', ListContents ''broken''])"
    by code_simp
  have d: "compute_depth [] None < max_depth"
    by code_simp
  have l: "get_contents demo_repo [] = Inr (Listing demo_root)"
    by code_simp
  have m1: "?logo \<in> set (as_list (Listing demo_root))"
    by code_simp
  have x1: "list_ex (endswith ''logo.png'') exclude_extensions"
    by code_simp
  have m2: "?img \<in> set (as_list (Listing demo_root))"
    by code_simp
  have s2: "in_scope None ?img"
    by code_simp
  from excluded_files_absent_dirs_traversed [OF w d l m1] x1
  have c1: "''logo.png'' \<notin> set (file_names demo_tree)"
    by simp
  from excluded_files_absent_dirs_traversed [OF w d l m2] s2
  have c2: "\<exists>child ev. fetch_repo_structure 2 demo_repo ''images.svg'' 0 None = Some (Inr child, ev) \<and>
                child \<in> set (node_children demo_tree)"
    by simp
  from w have w': "fetch_repo_structure 3 demo_repo [] 0 None =
     Some (Inr demo_tree,
           [WalkerCall [], ListContents [], WalkerCall ''src'', ListContents ''src'',
            WalkerCall ''images.svg'', ListContents ''images.svg'',
            WalkerCall ''broken'', ListContents ''broken''])"
    by (simp add: numeral_3_eq_3)
  from w' d l m1 x1 c1 m2 s2 c2 show ?thesis
    by blast
qed

theorem out_of_scope_dir_skipped_counterexample:
  "get_contents slash_repo ''/src'' =
     Inr (Listing [\<lparr>itype = ''dir'', iname = ''pkg'', ipath = ''src/pkg''\<rparr>]) \<and>
   compute_depth ''/src'' (Some ''/src'') < max_depth \<and>
   fetch_repo_structure 3 slash_repo ''/src'' 0 (Some ''/src'') =
     Some (Inr (DirectoryNode ''src'' []), [WalkerCall ''/src'', ListContents ''/src''])"
  by code_simp

theorem suffix_without_dot_dropped_witness:
  "map_option fst (fetch_repo_structure 3 demo_repo [] 0 None) = Some (Inr demo_tree) \<and>
   \<lparr>itype = ''file'', iname = ''png'', ipath = ''png''\<rparr> \<in> set (as_list (Listing demo_root)) \<and>
   ''png'' \<in> set exclude_extensions \<and>
   \<not> keep_item \<lparr>itype = ''file'', iname = ''png'', ipath = ''png''\<rparr> \<and>
   ''png'' \<notin> set (file_names demo_tree) \<and>
   FileEntry ''png'' ''png'' \<notin> set (node_children demo_tree) \<and>
   \<lparr>itype = ''file'', iname = ''mysvg'', ipath = ''mysvg''\<rparr> \<in> set (as_list (Listing demo_root)) \<and>
   ''svg'' \<in> set exclude_extensions \<and>
   \<not> keep_item \<lparr>itype = ''file'', iname = ''mysvg'', ipath = ''mysvg''\<rparr> \<and>
   ''mysvg'' \<notin> set (file_names demo_tree) \<and>
   FileEntry ''mysvg'' ''mysvg'' \<notin> set (node_children demo_tree)"
proof -
  let ?png = "\<lparr>itype = ''file'', iname = ''png'', ipath = ''png''\<rparr>"
  let ?svg = "\<lparr>itype = ''file'', iname = ''mysvg'', ipath = ''mysvg''\<rparr>"
  have w: "fetch_repo_structure (Suc 2) demo_repo [] 0 None =
     Some (Inr demo_tree,
           [WalkerCall [], ListContents [], WalkerCall ''src'', ListContents ''src'',
            WalkerCall ''images.svg'', ListContents ''images.svg'',
            WalkerCall ''broken'', ListContents ''broken''])"
    by code_simp
  have d: "compute_depth [] None < max_depth"
    by code_simp
  have l: "get_contents demo_repo [] = Inr (Listing demo_root)"
    by code_simp
  have m1: "?png \<in> set (as_list (Listing demo_root))"
    by code_simp
  have e1: "''png'' \<in> set exclude_extensions"
    by code_simp
  have m2: "?svg \<in> set (as_list (Listing demo_root))"
    by code_simp
  have e2: "''svg'' \<in> set exclude_extensions"
    by code_simp
  from suffix_without_dot_dropped [OF w d l m1 _ e1, of "[]" "''png''"]
  have c1: "\<not> keep_item ?png \<and> ''png'' \<notin> set (file_names demo_tree) \<and>
            FileEntry ''png'' ''png'' \<notin> set (node_children demo_tree)"
    by simp
  from suffix_without_dot_dropped [OF w d l m2 _ e2, of "''my''" "''mysvg''"]
  have c2: "\<not> keep_item ?svg \<and> ''mysvg'' \<notin> set (file_names demo_tree) \<and>
            FileEntry ''mysvg'' ''mysvg'' \<notin> set (node_children demo_tree)"
    by simp
  from w have w': "map_option fst (fetch_repo_structure 3 demo_repo [] 0 None) = Some (Inr demo_tree)"
    by (simp add: numeral_3_eq_3)
  from w' m1 e1 c1 m2 e2 c2 show ?thesis
    by blast
qed

section \<open>Properties of the formatter\<close>

lemma format_node_first_line:
  "format_node t (Suc d) = (indent (Suc d) @ node_name t) # tl (format_node t (Suc d))"
  by (cases t) simp_all

lemma sum_list_sort_key: "sum_list (map g (sort_key k xs)) = sum_list (map (g :: 'a \<Rightarrow> nat) xs)"
  by (metis mset_map mset_sort sum_mset_sum_list)

lemma length_format_node:
  "length (format_node t d) = (if 0 < d then count_nodes t else count_nodes t - 1)"
proof (induction t d rule: format_node.induct)
  case (1 n p depth)
  then show ?case by simp
next
  case (2 n cs depth)
  have "\<forall>c \<in> set cs. length (format_node c (depth + 1)) = count_nodes c"
    using 2 by simp
  then have "map (\<lambda>c. length (format_node c (depth + 1))) cs = map count_nodes cs"
    by simp
  then have "sum_list (map (\<lambda>c. length (format_node c (depth + 1))) (sort_key node_name cs)) =
        sum_list (map count_nodes cs)"
    by (simp only: sum_list_sort_key)
  moreover have "length (format_node (DirectoryNode n cs) depth) =
        (if 0 < depth then 1 else 0) +
        sum_list (map (\<lambda>c. length (format_node c (depth + 1))) (sort_key node_name cs))"
    by (simp add: length_concat comp_def del: One_nat_def add_Suc_right)
  ultimately show ?case
    by simp
qed

lemma insort_key_rel:
  assumes "list_all2 R xs ys" "R x y" "\<And>a b. R a b \<Longrightarrow> f a = f b"
  shows "list_all2 R (insort_key f x xs) (insort_key f y ys)"
  using assms by (induction xs ys rule: list_all2_induct) auto

lemma sort_key_rel:
  assumes "list_all2 R xs ys" "\<And>a b. R a b \<Longrightarrow> f a = f b"
  shows "list_all2 R (sort_key f xs) (sort_key f ys)"
  using assms by (induction xs ys rule: list_all2_induct) (auto intro: insort_key_rel)

lemma filter_key_distinct:
  "distinct (map f zs) \<Longrightarrow> k \<in> set zs \<Longrightarrow> filter (\<lambda>x. f k = f x) zs = [k]"
  by (induction zs) (auto simp: filter_empty_conv image_iff)

lemma sort_key_mset_distinct:
  assumes "mset xs = mset ys" "distinct (map f xs)"
  shows "sort_key f xs = sort_key f ys"
proof (rule properties_for_sort_key)
  show "mset (sort_key f ys) = mset xs"
    using assms(1) by simp
  show "sorted (map f (sort_key f ys))"
    by simp
  have "mset (map f (sort_key f ys)) = mset (map f xs)"
    using assms(1) by simp
  then have dy: "distinct (map f (sort_key f ys))"
    using assms(2) mset_eq_imp_distinct_iff by blast
  fix k
  assume k: "k \<in> set (sort_key f ys)"
  then have "k \<in> set xs"
    using assms(1) mset_eq_setD by fastforce
  with assms(2) have "filter (\<lambda>x. f k = f x) xs = [k]"
    by (rule filter_key_distinct)
  moreover from dy k have "filter (\<lambda>x. f k = f x) (sort_key f ys) = [k]"
    by (rule filter_key_distinct)
  ultimately show "filter (\<lambda>x. f k = f x) (sort_key f ys) = filter (\<lambda>x. f k = f x) xs"
    by simp
qed

lemma reordered_name: "reordered t t' \<Longrightarrow> node_name t = node_name t'"
  by (cases rule: reordered.cases) auto

lemma map_cong_rel: "list_all2 (\<lambda>a b. g a = g b) xs ys \<Longrightarrow> map g xs = map g ys"
  by (induction xs ys rule: list_all2_induct) auto

lemma format_reordered:
  "reordered t t' \<Longrightarrow> distinct_sibling_names t \<Longrightarrow> format_node t d = format_node t' d"
proof (induction arbitrary: d rule: reordered.induct)
  case (reordered_file n p)
  then show ?case by simp
next
  case (reordered_dir cs ds es n)
  let ?R = "\<lambda>c c'. node_name c = node_name c' \<and> (\<forall>k. format_node c k = format_node c' k)"
  from reordered_dir.prems have dist: "distinct (map node_name cs)"
    and each: "\<forall>c \<in> set cs. distinct_sibling_names c"
    by (simp_all add: list_all_iff)
  have rel: "list_all2 ?R cs ds"
    using reordered_dir.IH
    by (rule list.rel_mono_strong) (use each reordered_name in blast)
  then have names: "map node_name cs = map node_name ds"
    by (induction cs ds rule: list_all2_induct) auto
  from rel have "list_all2 ?R (sort_key node_name cs) (sort_key node_name ds)"
    by (rule sort_key_rel) simp
  then have "list_all2 (\<lambda>c c'. format_node c (d + 1) = format_node c' (d + 1))
               (sort_key node_name cs) (sort_key node_name ds)"
    by (rule list_all2_mono) simp
  then have m: "map (\<lambda>c. format_node c (d + 1)) (sort_key node_name cs) =
             map (\<lambda>c. format_node c (d + 1)) (sort_key node_name ds)"
    by (rule map_cong_rel)
  from dist names have "distinct (map node_name ds)"
    by simp
  with reordered_dir.hyps have "sort_key node_name ds = sort_key node_name es"
    by (rule sort_key_mset_distinct)
  with m show ?case
    by simp
qed

lemma reordered_refl: "reordered t t"
proof (induction t)
  case (FileEntry n p)
  show ?case by (rule reordered_file)
next
  case (DirectoryNode n cs)
  then have "list_all2 reordered cs cs"
    by (simp add: list.rel_refl_strong)
  then show ?case
    by (rule reordered_dir) simp
qed

lemma reordered_top: "mset cs = mset es \<Longrightarrow> reordered (DirectoryNode n cs) (DirectoryNode n es)"
  by (rule reordered_dir [of cs cs]) (simp_all add: list.rel_refl_strong reordered_refl)

text \<open>
  Claim C4, as amended. The formatter emits the children of every directory in the
  order of a sort by name: the lines of a directory are its own line (none at depth 0)
  followed by the blocks of its children taken in ascending order of their names, and
  each block starts with the line of that child. The root gets no line: the text does
  not depend on the root's name and has one line per node other than the root. For a
  tree whose sibling names are pairwise distinct at every directory, the text is the
  same for every permutation of the children lists.
\<close>

theorem format_sorted_rootless_stable:
  "format_node (DirectoryNode n cs) d =
     (if 0 < d then [indent d @ n] else []) @
     concat (map (\<lambda>c. format_node c (Suc d)) (sort_key node_name cs)) \<and>
   sorted (map node_name (sort_key node_name cs)) \<and>
   mset (sort_key node_name cs) = mset cs \<and>
   format_node c (Suc d) = (indent (Suc d) @ node_name c) # tl (format_node c (Suc d)) \<and>
   format_tree_structure (DirectoryNode n cs) = format_tree_structure (DirectoryNode n' cs) \<and>
   length (format_node t 0) = count_nodes t - 1 \<and>
   (distinct_sibling_names t \<and> reordered t t' \<longrightarrow>
      format_tree_structure t = format_tree_structure t')"
proof (intro conjI impI)
  show "format_node (DirectoryNode n cs) d =
     (if 0 < d then [indent d @ n] else []) @
     concat (map (\<lambda>c. format_node c (Suc d)) (sort_key node_name cs))"
    by simp
  show "sorted (map node_name (sort_key node_name cs))"
    by simp
  show "mset (sort_key node_name cs) = mset cs"
    by simp
  show "format_node c (Suc d) = (indent (Suc d) @ node_name c) # tl (format_node c (Suc d))"
    by (rule format_node_first_line)
  show "format_tree_structure (DirectoryNode n cs) = format_tree_structure (DirectoryNode n' cs)"
    by (simp add: format_tree_structure_def)
  show "length (format_node t 0) = count_nodes t - 1"
    by (simp add: length_format_node)
next
  assume "distinct_sibling_names t \<and> reordered t t'"
  then have "format_node t 0 = format_node t' 0"
    using format_reordered by blast
  then show "format_tree_structure t = format_tree_structure t'"
    by (simp add: format_tree_structure_def)
qed

theorem format_sorted_rootless_stable_witness:
  "distinct_sibling_names demo_tree \<and> reordered demo_tree demo_tree_shuffled \<and>
   format_tree_structure demo_tree = format_tree_structure demo_tree_shuffled \<and>
   format_tree_structure demo_tree_shuffled =
     ''  README.md\<newline>  broken\<newline>  images.svg\<newline>    a.txt\<newline>  src\<newline>    main.py''"
proof -
  have d: "distinct_sibling_names demo_tree"
    by code_simp
  have r: "reordered demo_tree demo_tree_shuffled"
    unfolding demo_tree_def demo_tree_shuffled_def
    by (rule reordered_top) simp
  from format_sorted_rootless_stable [of _ _ _ _ _ demo_tree demo_tree_shuffled] d r
  have e: "format_tree_structure demo_tree = format_tree_structure demo_tree_shuffled"
    by blast
  have v: "format_tree_structure demo_tree_shuffled =
     ''  README.md\<newline>  broken\<newline>  images.svg\<newline>    a.txt\<newline>  src\<newline>    main.py''"
    by code_simp
  from d r e v show ?thesis
    by blast
qed

theorem format_permutation_counterexample:
  "reordered clash_tree clash_tree_swapped \<and>
   format_tree_structure clash_tree = ''  a\<newline>  a\<newline>    b'' \<and>
   format_tree_structure clash_tree_swapped = ''  a\<newline>    b\<newline>  a'' \<and>
   format_tree_structure clash_tree \<noteq> format_tree_structure clash_tree_swapped"
proof -
  have r: "reordered clash_tree clash_tree_swapped"
    unfolding clash_tree_def clash_tree_swapped_def
    by (rule reordered_top) simp
  have a: "format_tree_structure clash_tree = ''  a\<newline>  a\<newline>    b''"
    by code_simp
  have b: "format_tree_structure clash_tree_swapped = ''  a\<newline>    b\<newline>  a''"
    by code_simp
  from r a b show ?thesis
    by simp
qed

section \<open>Properties of the orchestrator\<close>

lemma fetch_and_cache_stores:
  "fetch_and_cache fuel e c k rname path = Some (Inr s, c', evs) \<Longrightarrow> c' k = Some (Encoded s)"
  by (auto simp: fetch_and_cache_def Let_def split: prod.splits sum.splits option.splits)

lemma fetch_and_cache_raises:
  "fetch_and_cache fuel e c k rname path = Some (Inl x, c', evs) \<Longrightarrow>
   c' = c \<and>
   (x = HTTPException 404 (''Repository '' @ rname @ '' not found or inaccessible on GitHub'') \<or>
    x = HTTPException 404 (''Path '' @ or_empty path @ '' not found in repository'') \<or>
    redis_setex_error e k = Some x)"
  using fetch_never_raises
  by (fastforce simp: fetch_and_cache_def get_repo_def probe_path_def Let_def
      split: prod.splits sum.splits option.splits if_splits)

lemma structure_returned:
  assumes "get_project_structure_async fuel e c pid path = Some (Inr s, c1, ev1)"
  shows "redis_get_error e (cache_key_of pid path) = None \<and>
         c1 (cache_key_of pid path) = Some (Encoded s)"
  using assms fetch_and_cache_stores
  by (fastforce simp: get_project_structure_async_def decode_utf8_def Let_def
      split: option.splits sum.splits if_splits prod.splits stored.splits)

text \<open>
  Claim C9, as amended. The cache is read before the project row and the scope path:
  when Redis answers and holds, under the key of the project id, the path and the
  depth limit, the encoding of a non-empty text, the call returns that text, leaves
  Redis as it is and makes no other call, whatever the project lookup, the repository
  and the path would have answered. When the bytes held there do not decode, the call
  raises the decoding error in the same way, before any lookup.
\<close>

theorem cache_hit_before_lookups:
  assumes "redis_get_error e (cache_key_of pid path) = None"
  shows "(c (cache_key_of pid path) = Some (Encoded v) \<and> v \<noteq> [] \<longrightarrow>
            get_project_structure_async fuel e c pid path =
              Some (Inr v, c, [CacheGet (cache_key_of pid path)])) \<and>
         (c (cache_key_of pid path) = Some (Malformed msg) \<longrightarrow>
            get_project_structure_async fuel e c pid path =
              Some (Inl (OtherException msg), c, [CacheGet (cache_key_of pid path)]))"
  using assms by (simp add: get_project_structure_async_def decode_utf8_def)

text \<open>
  Claim C8, as amended. When a call returns a non-empty text, a second call with the
  same project id and path on the Redis contents the first one left returns the same
  text, whatever the bound on the walker, and its only call to the outside is the
  cache read: no walker call, no repository access, no path probe.
\<close>

theorem second_call_served_from_cache:
  assumes "get_project_structure_async fuel e c pid path = Some (Inr s, c1, ev1)"
    and "s \<noteq> []"
  shows "get_project_structure_async fuel' e c1 pid path =
           Some (Inr s, c1, [CacheGet (cache_key_of pid path)]) \<and>
         call_twice fuel e c pid path =
           Some ((Inr s, ev1), (Inr s, [CacheGet (cache_key_of pid path)]))"
proof -
  from structure_returned [OF assms(1)]
  have g: "redis_get_error e (cache_key_of pid path) = None"
    and h: "c1 (cache_key_of pid path) = Some (Encoded s)"
    by simp_all
  from g h assms(2)
  have second: "\<And>k. get_project_structure_async k e c1 pid path =
           Some (Inr s, c1, [CacheGet (cache_key_of pid path)])"
    by (simp add: get_project_structure_async_def decode_utf8_def)
  with assms(1) show ?thesis
    by (simp add: call_twice_def)
qed

text \<open>
  Claim C6, as amended. On a cache miss the call fails with 404 (\<open>Project not found\<close>)
  when the project row does not exist, and with 400 (\<open>Project has no associated GitHub
  repository\<close>) when the row exists and its repository name is \<open>None\<close> or empty; in both
  cases after the cache read and the project lookup only.
\<close>

theorem missing_project_404_missing_repo_400:
  assumes "redis_get_error e (cache_key_of pid path) = None"
    and "c (cache_key_of pid path) = None \<or> c (cache_key_of pid path) = Some (Encoded [])"
  shows "(get_project_from_db_by_id e pid = Inr None \<longrightarrow>
            get_project_structure_async fuel e c pid path =
              Some (Inl (HTTPException 404 ''Project not found''), c,
                    [CacheGet (cache_key_of pid path), ProjectLookup pid])) \<and>
         (get_project_from_db_by_id e pid = Inr (Some proj) \<and> \<not> truthy (project_name proj) \<longrightarrow>
            get_project_structure_async fuel e c pid path =
              Some (Inl (HTTPException 400 ''Project has no associated GitHub repository''), c,
                    [CacheGet (cache_key_of pid path), ProjectLookup pid]))"
  using assms by (auto simp: get_project_structure_async_def)

text \<open>
  Claim C7. An exception that leaves the \<open>try\<close> block of the service reaches the caller
  unchanged when it is an \<open>HTTPException\<close>, and as an \<open>HTTPException\<close> with status 500
  whose detail ends with the original message otherwise. The exceptions that can leave
  the block are the 404 of an unreachable repository, the 404 of a missing scope path
  and whatever the cache write raises; the walker raises none.
\<close>

theorem http_errors_pass_others_become_500:
  assumes "redis_get_error e (cache_key_of pid path) = None"
    and "c (cache_key_of pid path) = None \<or> c (cache_key_of pid path) = Some (Encoded [])"
    and "get_project_from_db_by_id e pid = Inr (Some proj)"
    and "truthy (project_name proj)"
    and "fetch_and_cache fuel e c (cache_key_of pid path) (or_empty (project_name proj)) path =
           Some (Inl x, c', evs)"
  shows "get_project_structure_async fuel e c pid path =
           Some (Inl (case x of
                        HTTPException code detail \<Rightarrow> x
                      | OtherException msg \<Rightarrow>
                          HTTPException 500 (''Failed to fetch project structure: '' @ msg)),
                 c', [CacheGet (cache_key_of pid path), ProjectLookup pid] @ evs) \<and>
         (x = HTTPException 404
                (''Repository '' @ or_empty (project_name proj) @
                 '' not found or inaccessible on GitHub'') \<or>
          x = HTTPException 404 (''Path '' @ or_empty path @ '' not found in repository'') \<or>
          redis_setex_error e (cache_key_of pid path) = Some x)"
proof -
  have "on_exception x =
          (case x of
             HTTPException code detail \<Rightarrow> x
           | OtherException msg \<Rightarrow>
               HTTPException 500 (''Failed to fetch project structure: '' @ msg))"
    by (simp add: on_exception_def split: exn.splits)
  with assms fetch_and_cache_raises [OF assms(5)] show ?thesis
    by (auto simp: get_project_structure_async_def)
qed


theorem cache_hit_before_lookups_witness:
  "redis_get_error demo_env (cache_key_of ''zz'' None) = None \<and>
   warm_cache (cache_key_of ''zz'' None) = Some (Encoded ''  a'') \<and>
   get_project_from_db_by_id demo_env ''zz'' = Inr None \<and>
   map_option fst (get_project_structure_async 0 demo_env warm_cache ''zz'' None) =
     Some (Inr ''  a'') \<and>
   map_option (\<lambda>x. snd (snd x)) (get_project_structure_async 0 demo_env warm_cache ''zz'' None) =
     Some [CacheGet ''project_structure:zz:exact_path_None:depth_4''] \<and>
   corrupt_cache (cache_key_of ''zz'' None) =
     Some (Malformed invalid_start_byte) \<and>
   map_option fst (get_project_structure_async 0 demo_env corrupt_cache ''zz'' None) =
     Some (Inl (OtherException invalid_start_byte))"
proof -
  have g: "redis_get_error demo_env (cache_key_of ''zz'' None) = None"
    by code_simp
  have h: "warm_cache (cache_key_of ''zz'' None) = Some (Encoded ''  a'')"
    by code_simp
  have n: "''  a'' \<noteq> []"
    by simp
  have p: "get_project_from_db_by_id demo_env ''zz'' = Inr None"
    by code_simp
  have k: "cache_key_of ''zz'' None = ''project_structure:zz:exact_path_None:depth_4''"
    by code_simp
  have m: "corrupt_cache (cache_key_of ''zz'' None) =
     Some (Malformed invalid_start_byte)"
    by code_simp
  from cache_hit_before_lookups
         [where e = demo_env and pid = "''zz''" and path = None and c = warm_cache
            and v = "''  a''" and fuel = 0] g h n
  have a: "get_project_structure_async 0 demo_env warm_cache ''zz'' None =
           Some (Inr ''  a'', warm_cache, [CacheGet (cache_key_of ''zz'' None)])"
    by blast
  from cache_hit_before_lookups
         [where e = demo_env and pid = "''zz''" and path = None and c = corrupt_cache and fuel = 0
            and msg = invalid_start_byte] g m
  have b: "get_project_structure_async 0 demo_env corrupt_cache ''zz'' None =
           Some (Inl (OtherException invalid_start_byte),
                 corrupt_cache, [CacheGet (cache_key_of ''zz'' None)])"
    by blast
  from a b g h p k m show ?thesis
    by simp
qed

theorem empty_cache_entry_counterexample:
  "blank_cache (cache_key_of ''zz'' None) = Some (Encoded []) \<and>
   map_option fst (get_project_structure_async 1 demo_env blank_cache ''zz'' None) =
     Some (Inl (HTTPException 404 ''Project not found'')) \<and>
   corrupt_cache (cache_key_of ''zz'' None) =
     Some (Malformed invalid_start_byte) \<and>
   map_option fst (get_project_structure_async 1 demo_env corrupt_cache ''zz'' None) =
     Some (Inl (OtherException invalid_start_byte))"
  by code_simp

theorem second_call_served_from_cache_witness:
  "map_option fst (get_project_structure_async 3 demo_env Map.empty ''p1'' (Some ''src'')) =
     Some (Inr ''  main.py'') \<and>
   map_option fst (call_twice 3 demo_env Map.empty ''p1'' (Some ''src'')) =
     Some (Inr ''  main.py'',
           [CacheGet ''project_structure:p1:exact_path_src:depth_4'', ProjectLookup ''p1'',
            PrivateRepoAttempt ''acme/demo'', PathProbe ''src'', WalkerCall ''src'',
            ListContents ''src'',
            CacheSetex ''project_structure:p1:exact_path_src:depth_4'' 3600 ''  main.py'']) \<and>
   map_option snd (call_twice 3 demo_env Map.empty ''p1'' (Some ''src'')) =
     Some (Inr ''  main.py'', [CacheGet ''project_structure:p1:exact_path_src:depth_4''])"
proof -
  have f: "map_option fst (get_project_structure_async 3 demo_env Map.empty ''p1'' (Some ''src'')) =
     Some (Inr ''  main.py'')"
    by code_simp
  then obtain c1 ev1 where
    r: "get_project_structure_async 3 demo_env Map.empty ''p1'' (Some ''src'') =
          Some (Inr ''  main.py'', c1, ev1)"
    by force
  have n: "''  main.py'' \<noteq> []"
    by simp
  have k: "cache_key_of ''p1'' (Some ''src'') = ''project_structure:p1:exact_path_src:depth_4''"
    by code_simp
  have a: "map_option fst (call_twice 3 demo_env Map.empty ''p1'' (Some ''src'')) =
     Some (Inr ''  main.py'',
           [CacheGet ''project_structure:p1:exact_path_src:depth_4'', ProjectLookup ''p1'',
            PrivateRepoAttempt ''acme/demo'', PathProbe ''src'', WalkerCall ''src'',
            ListContents ''src'',
            CacheSetex ''project_structure:p1:exact_path_src:depth_4'' 3600 ''  main.py''])"
    by code_simp
  from second_call_served_from_cache [OF r n, of 3] k
  have "map_option snd (call_twice 3 demo_env Map.empty ''p1'' (Some ''src'')) =
     Some (Inr ''  main.py'', [CacheGet ''project_structure:p1:exact_path_src:depth_4''])"
    by simp
  with f a show ?thesis
    by blast
qed

theorem empty_output_refetched_counterexample:
  "call_twice 3 demo_env Map.empty ''p4'' None =
     Some ((Inr [],
            [CacheGet ''project_structure:p4:exact_path_None:depth_4'', ProjectLookup ''p4'',
             PrivateRepoAttempt ''acme/blank'', PublicRepoAttempt ''acme/blank'',
             WalkerCall [], ListContents [],
             CacheSetex ''project_structure:p4:exact_path_None:depth_4'' 3600 []]),
           (Inr [],
            [CacheGet ''project_structure:p4:exact_path_None:depth_4'', ProjectLookup ''p4'',
             PrivateRepoAttempt ''acme/blank'', PublicRepoAttempt ''acme/blank'',
             WalkerCall [], ListContents [],
             CacheSetex ''project_structure:p4:exact_path_None:depth_4'' 3600 []]))"
  by code_simp

theorem missing_project_404_missing_repo_400_witness:
  "redis_get_error demo_env (cache_key_of ''zz'' None) = None \<and>
   get_project_from_db_by_id demo_env ''zz'' = Inr None \<and>
   get_project_structure_async 1 demo_env Map.empty ''zz'' None =
     Some (Inl (HTTPException 404 ''Project not found''), Map.empty,
           [CacheGet (cache_key_of ''zz'' None), ProjectLookup ''zz'']) \<and>
   redis_get_error demo_env (cache_key_of ''p5'' None) = None \<and>
   get_project_from_db_by_id demo_env ''p5'' = Inr (Some \<lparr>project_name = Some []\<rparr>) \<and>
   \<not> truthy (project_name \<lparr>project_name = Some []\<rparr>) \<and>
   get_project_structure_async 1 demo_env Map.empty ''p5'' None =
     Some (Inl (HTTPException 400 ''Project has no associated GitHub repository''), Map.empty,
           [CacheGet (cache_key_of ''p5'' None), ProjectLookup ''p5''])"
proof -
  have g1: "redis_get_error demo_env (cache_key_of ''zz'' None) = None"
    by code_simp
  have p1: "get_project_from_db_by_id demo_env ''zz'' = Inr None"
    by code_simp
  have g2: "redis_get_error demo_env (cache_key_of ''p5'' None) = None"
    by code_simp
  have p2: "get_project_from_db_by_id demo_env ''p5'' = Inr (Some \<lparr>project_name = Some []\<rparr>)"
    by code_simp
  have t2: "\<not> truthy (project_name \<lparr>project_name = Some []\<rparr>)"
    by code_simp
  from missing_project_404_missing_repo_400
         [where e = demo_env and pid = "''zz''" and path = None and c = Map.empty and fuel = 1]
       g1 p1
  have r1: "get_project_structure_async 1 demo_env Map.empty ''zz'' None =
     Some (Inl (HTTPException 404 ''Project not found''), Map.empty,
           [CacheGet (cache_key_of ''zz'' None), ProjectLookup ''zz''])"
    by simp
  from missing_project_404_missing_repo_400
         [where e = demo_env and pid = "''p5''" and path = None and c = Map.empty and fuel = 1
            and proj = "\<lparr>project_name = Some []\<rparr>"]
       g2 p2 t2
  have r2: "get_project_structure_async 1 demo_env Map.empty ''p5'' None =
     Some (Inl (HTTPException 400 ''Project has no associated GitHub repository''), Map.empty,
           [CacheGet (cache_key_of ''p5'' None), ProjectLookup ''p5''])"
    by simp
  from g1 p1 r1 g2 p2 t2 r2 show ?thesis
    by blast
qed

theorem missing_repo_name_counterexample:
  "get_project_from_db_by_id demo_env ''p2'' = Inr (Some \<lparr>project_name = None\<rparr>) \<and>
   map_option fst (get_project_structure_async 1 demo_env Map.empty ''p2'' None) =
     Some (Inl (HTTPException 400 ''Project has no associated GitHub repository''))"
  by code_simp

theorem http_errors_pass_others_become_500_witness:
  "map_option fst (fetch_and_cache 3 demo_env Map.empty (cache_key_of ''p3'' None) ''acme/gone'' None) =
     Some (Inl (HTTPException 404 ''Repository acme/gone not found or inaccessible on GitHub'')) \<and>
   map_option fst (get_project_structure_async 3 demo_env Map.empty ''p3'' None) =
     Some (Inl (HTTPException 404 ''Repository acme/gone not found or inaccessible on GitHub'')) \<and>
   map_option fst (fetch_and_cache 3 readonly_env Map.empty (cache_key_of ''p1'' None) ''acme/demo'' None) =
     Some (Inl (OtherException ''Connection refused'')) \<and>
   map_option fst (get_project_structure_async 3 readonly_env Map.empty ''p1'' None) =
     Some (Inl (HTTPException 500 ''Failed to fetch project structure: Connection refused''))"
proof -
  have g3: "redis_get_error demo_env (cache_key_of ''p3'' None) = None"
    by code_simp
  have m3: "Map.empty (cache_key_of ''p3'' None) = (None :: stored option) \<or>
            Map.empty (cache_key_of ''p3'' None) = Some (Encoded [])"
    by simp
  have p3: "get_project_from_db_by_id demo_env ''p3'' = Inr (Some \<lparr>project_name = Some ''acme/gone''\<rparr>)"
    by code_simp
  have t3: "truthy (project_name \<lparr>project_name = Some ''acme/gone''\<rparr>)"
    by code_simp
  have f3: "map_option fst (fetch_and_cache 3 demo_env Map.empty (cache_key_of ''p3'' None) ''acme/gone'' None) =
     Some (Inl (HTTPException 404 ''Repository acme/gone not found or inaccessible on GitHub''))"
    by code_simp
  then obtain c3 ev3 where
    x3: "fetch_and_cache 3 demo_env Map.empty (cache_key_of ''p3'' None)
           (or_empty (project_name \<lparr>project_name = Some ''acme/gone''\<rparr>)) None =
         Some (Inl (HTTPException 404 ''Repository acme/gone not found or inaccessible on GitHub''),
               c3, ev3)"
    by (force simp: or_empty_def)
  from http_errors_pass_others_become_500 [OF g3 m3 p3 t3 x3]
  have r3: "map_option fst (get_project_structure_async 3 demo_env Map.empty ''p3'' None) =
     Some (Inl (HTTPException 404 ''Repository acme/gone not found or inaccessible on GitHub''))"
    by simp
  have g1: "redis_get_error readonly_env (cache_key_of ''p1'' None) = None"
    by code_simp
  have m1: "Map.empty (cache_key_of ''p1'' None) = (None :: stored option) \<or>
            Map.empty (cache_key_of ''p1'' None) = Some (Encoded [])"
    by simp
  have p1: "get_project_from_db_by_id readonly_env ''p1'' = Inr (Some \<lparr>project_name = Some ''acme/demo''\<rparr>)"
    by code_simp
  have t1: "truthy (project_name \<lparr>project_name = Some ''acme/demo''\<rparr>)"
    by code_simp
  have f1: "map_option fst (fetch_and_cache 3 readonly_env Map.empty (cache_key_of ''p1'' None) ''acme/demo'' None) =
     Some (Inl (OtherException ''Connection refused''))"
    by code_simp
  then obtain c1 ev1 where
    x1: "fetch_and_cache 3 readonly_env Map.empty (cache_key_of ''p1'' None)
           (or_empty (project_name \<lparr>project_name = Some ''acme/demo''\<rparr>)) None =
         Some (Inl (OtherException ''Connection refused''), c1, ev1)"
    by (force simp: or_empty_def)
  from http_errors_pass_others_become_500 [OF g1 m1 p1 t1 x1]
  have r1: "map_option fst (get_project_structure_async 3 readonly_env Map.empty ''p1'' None) =
     Some (Inl (HTTPException 500 ''Failed to fetch project structure: Connection refused''))"
    by simp
  from f3 r3 f1 r1 show ?thesis
    by blast
qed

end
